theory Spec2Isabelle
  imports Main "HOL-Library.AList"
begin

section \<open>Package importgraph: forward and reverse import graphs\<close>

text \<open>
  \<^verbatim>\<open>type Graph map[string]map[string]bool\<close> maps a node to the set of its successors.
  A Go map is finite and is ranged over in an arbitrary order, so both levels are
  association lists: \<open>map_of g x\<close> is \<^verbatim>\<open>g[x]\<close> (\<open>None\<close> for an absent key, whose value in Go
  is the nil map), and the order of a list stands for the order in which one \<^verbatim>\<open>range\<close>
  happens to enumerate the keys.
\<close>

type_synonym Edges = "(string \<times> bool) list"
type_synonym Graph = "(string \<times> Edges) list"

text \<open>\<^verbatim>\<open>func (g Graph) addEdge(from, to string)\<close>\<close>

definition addEdge :: "Graph \<Rightarrow> string \<Rightarrow> string \<Rightarrow> Graph" where
  "addEdge g from to =
     (let edges = (case map_of g from of None \<Rightarrow> [] | Some es \<Rightarrow> es)
      in AList.update from (AList.update to True edges) g)"

text \<open>
  The keys that \<^verbatim>\<open>for y := range g[x]\<close> enumerates. Ranging over the nil map of an absent
  node runs no iteration. The loop ranges over keys: the boolean stored under a key is
  not read.
\<close>

definition rangeKeys :: "Graph \<Rightarrow> string \<Rightarrow> string list" where
  "rangeKeys g x = (case map_of g x of None \<Rightarrow> [] | Some es \<Rightarrow> map fst es)"

text \<open>
  A \<^verbatim>\<open>for _, y := range ys { body(y) }\<close> loop whose body updates a state and may fail to
  return: the loop returns only if every run of the body does.
\<close>

fun forEach :: "'a list \<Rightarrow> ('a \<Rightarrow> 's \<Rightarrow> 's option) \<Rightarrow> 's \<Rightarrow> 's option" where
  "forEach [] body s = Some s"
| "forEach (y # ys) body s =
     (case body y s of None \<Rightarrow> None | Some s' \<Rightarrow> forEach ys body s')"

lemma forEach_mono [partial_function_mono]:
  assumes "\<And>y s. mono_option (\<lambda>f. body f y s)"
  shows "mono_option (\<lambda>f. forEach ys (body f) s)"
proof (induction ys arbitrary: s)
  case Nil
  show ?case by (simp add: partial_function_mono)
next
  case (Cons y ys)
  have "mono_option (\<lambda>f. Option.bind (body f y s) (\<lambda>s'. forEach ys (body f) s'))"
    by (rule bind_mono) (rule assms, rule Cons.IH)
  moreover have "(\<lambda>f. forEach (y # ys) (body f) s)
      = (\<lambda>f. Option.bind (body f y s) (\<lambda>s'. forEach ys (body f) s'))"
    by (auto simp: fun_eq_iff split: option.splits)
  ultimately show ?case by simp
qed

text \<open>
  The closure \<^verbatim>\<open>visit\<close> of \<^verbatim>\<open>Search\<close>, with the captured map \<^verbatim>\<open>seen\<close> passed in and
  returned. \<^verbatim>\<open>seen[x]\<close> of an absent key is \<^verbatim>\<open>false\<close>. The recursion is not structural, so a
  run that does not return is the value \<open>None\<close>.
\<close>

partial_function (option) visit :: "Graph \<Rightarrow> string \<Rightarrow> (string \<rightharpoonup> bool) \<Rightarrow> (string \<rightharpoonup> bool) option"
  where
  "visit g x seen =
     (if seen x \<noteq> Some True
      then forEach (rangeKeys g x) (\<lambda>y s. visit g y s) (seen(x \<mapsto> True))
      else Some seen)"

text \<open>\<^verbatim>\<open>func (g Graph) Search(roots ...string) map[string]bool\<close>\<close>

definition Search :: "Graph \<Rightarrow> string list \<Rightarrow> (string \<rightharpoonup> bool) option" where
  "Search g roots = forEach roots (\<lambda>root s. visit g root s) Map.empty"

text \<open>
  \<^verbatim>\<open>Build\<close> starts one goroutine per package; each sends \<^verbatim>\<open>importEdge\<close> and \<^verbatim>\<open>pathError\<close>
  values on one channel, and the single loop \<^verbatim>\<open>for e := range ch\<close> owns the three results.
  The values one goroutine sends are \<open>produce\<close>; the loop is modelled on the sequence of
  values the channel delivers, whatever the interleaving.
\<close>

record buildPackage =
  Imports :: "string list"
  TestImports :: "string list"
  XTestImports :: "string list"

datatype 'e imported = NoGoError | ImportError 'e | Imported buildPackage

datatype 'e event = pathError string 'e | importEdge string string

fun produce :: "string \<Rightarrow> 'e option \<Rightarrow> 'e imported \<Rightarrow> 'e event list" where
  "produce path (Some err) bp = [pathError path err]"
| "produce path None NoGoError = []"
| "produce path None (ImportError err) = [pathError path err]"
| "produce path None (Imported bp) =
     map (importEdge path) (Imports bp) @ map (importEdge path) (TestImports bp)
       @ map (importEdge path) (XTestImports bp)"

record 'e buildResult =
  forward :: Graph
  reverse :: Graph
  errors :: "(string \<times> 'e) list option"

text \<open>One iteration of \<^verbatim>\<open>for e := range ch\<close>; \<^verbatim>\<open>errors\<close> is nil until the first error.\<close>

fun receive :: "'e event \<Rightarrow> 'e buildResult \<Rightarrow> 'e buildResult" where
  "receive (pathError path err) b =
     b\<lparr>errors := Some (AList.update path err (case errors b of None \<Rightarrow> [] | Some m \<Rightarrow> m))\<rparr>"
| "receive (importEdge from to) b =
     (if to = ''C'' then b
      else b\<lparr>forward := addEdge (forward b) from to, reverse := addEdge (reverse b) to from\<rparr>)"

definition Build :: "'e event list \<Rightarrow> 'e buildResult" where
  "Build ch = fold receive ch \<lparr>forward = [], reverse = [], errors = None\<rparr>"


section \<open>Package types: field and method lookup\<close>

subsection \<open>The type graph\<close>

text \<open>
  A \<^verbatim>\<open>*Package\<close> is read only through its \<^verbatim>\<open>path\<close>. The packages, the types and the
  members of a checked program are never nil, so the model has no nil package and no nil
  type: \<^verbatim>\<open>assert(m.typ != nil)\<close> and \<^verbatim>\<open>assert(f.typ != nil)\<close> hold of every value of these
  datatypes.
\<close>

record Package =
  path :: string

text \<open>
  A \<^verbatim>\<open>*Named\<close> is compared by identity and the graph of named types may be cyclic, so a
  named type occurs in a type as a handle \<open>'h\<close>, and the object it points to is read from
  the type graph. Of a \<^verbatim>\<open>*Signature\<close> the lookup reads only the receiver; of the other kinds
  of type it reads nothing, and they are \<open>Basic\<close>.
\<close>

datatype 'h Type =
    Basic string
  | Pointer "'h Type"
  | Named 'h
  | Struct "'h Field list"
  | Interface "'h Func list"
  | Signature "'h Var option" "'h Type list" "'h Type list"
and 'h Field = Field (fieldName: string) (fieldPkg: Package) (fieldTyp: "'h Type") (anonymous: bool)
and 'h Func = Func (funcName: string) (funcPkg: Package) (funcTyp: "'h Type")
and 'h Var = Var (varName: string) (varTyp: "'h Type")

text \<open>An \<^verbatim>\<open>Object\<close> that the lookup returns is a \<^verbatim>\<open>*Field\<close> or a \<^verbatim>\<open>*Func\<close>; nil is \<open>None\<close>.\<close>

datatype 'h Object = FieldObj "'h Field" | FuncObj "'h Func"

text \<open>The object behind a \<^verbatim>\<open>*Named\<close>, and the type graph: the object of every handle.\<close>

record 'h NamedObj =
  methods :: "'h Func list"
  underlying :: "'h Type"

type_synonym 'h TypeGraph = "'h \<Rightarrow> 'h NamedObj"

text \<open>The two panics of this file: a failed \<^verbatim>\<open>assert\<close> and a failed type assertion.\<close>

datatype error = AssertionFailed | TypeAssertionFailed

subsection \<open>Helpers\<close>

text \<open>
  \<^verbatim>\<open>ast.IsExported\<close> belongs to the Go library, not to this repository: it decodes the
  first rune of the name and asks whether it is an upper-case letter of Unicode. The
  lookup only branches on its result, so it is a parameter \<open>IsExported\<close> of every function
  that calls it, directly or not, and what is proved holds for every such predicate.
\<close>

text \<open>\<^verbatim>\<open>func deref(typ Type) (Type, bool)\<close>\<close>

fun deref :: "'h Type \<Rightarrow> 'h Type \<times> bool" where
  "deref (Pointer base) = (base, True)"
| "deref typ = (typ, False)"

text \<open>
  \<^verbatim>\<open>func concat(list []int, i int) []int\<close>. An index sequence is nil or was returned by
  \<^verbatim>\<open>concat\<close>, which never returns an empty slice: the nil slice is \<open>[]\<close>.
\<close>

definition concat_index :: "int list \<Rightarrow> int \<Rightarrow> int list" where
  "concat_index list i = list @ [i]"

text \<open>
  \<^verbatim>\<open>func lookupMethod(methods []*Func, pkg *Package, name string) (int, *Func)\<close>: the loop
  from index \<open>i\<close> on, and the function with its assertion.
\<close>

fun lookupMethod_range :: "(string \<Rightarrow> bool) \<Rightarrow> int \<Rightarrow> 'h Func list \<Rightarrow> Package \<Rightarrow> string \<Rightarrow> int \<times> 'h Func option" where
  "lookupMethod_range IsExported i [] pkg name = (-1, None)"
| "lookupMethod_range IsExported i (m # ms) pkg name =
     (if funcName m = name \<and> (IsExported name \<or> path (funcPkg m) = path pkg)
      then (i, Some m)
      else lookupMethod_range IsExported (i + 1) ms pkg name)"

definition lookupMethod :: "(string \<Rightarrow> bool) \<Rightarrow> 'h Func list \<Rightarrow> Package \<Rightarrow> string \<Rightarrow> error + int \<times> 'h Func option" where
  "lookupMethod IsExported ms pkg name =
     (if name = ''_'' then Inl AssertionFailed else Inr (lookupMethod_range IsExported 0 ms pkg name))"

text \<open>\<^verbatim>\<open>func fieldIndex(fields []*Field, pkg *Package, name string) int\<close>\<close>

fun fieldIndex_range :: "(string \<Rightarrow> bool) \<Rightarrow> int \<Rightarrow> 'h Field list \<Rightarrow> Package \<Rightarrow> string \<Rightarrow> int" where
  "fieldIndex_range IsExported i [] pkg name = -1"
| "fieldIndex_range IsExported i (f # fs) pkg name =
     (if fieldName f = name \<and> (IsExported name \<or> path (fieldPkg f) = path pkg)
      then i
      else fieldIndex_range IsExported (i + 1) fs pkg name)"

definition fieldIndex :: "(string \<Rightarrow> bool) \<Rightarrow> 'h Field list \<Rightarrow> Package \<Rightarrow> string \<Rightarrow> int" where
  "fieldIndex IsExported fs pkg name = (if name = ''_'' then -1 else fieldIndex_range IsExported 0 fs pkg name)"

text \<open>
  Modelled from the spec: the method \<^verbatim>\<open>isMatch\<close> of \<^verbatim>\<open>*Field\<close> is called by
  \<^verbatim>\<open>LookupFieldOrMethod\<close> and is declared in a file that is not among the sources. The spec
  has the fields scanned for a name match by the visibility rule: identical spelling, and
  exported or of the same declaring package. It is the test that \<^verbatim>\<open>fieldIndex\<close> makes.
\<close>

definition isMatch :: "(string \<Rightarrow> bool) \<Rightarrow> 'h Field \<Rightarrow> Package \<Rightarrow> string \<Rightarrow> bool" where
  "isMatch IsExported f pkg name \<longleftrightarrow>
     fieldName f = name \<and> (IsExported name \<or> path (fieldPkg f) = path pkg)"

subsection \<open>LookupFieldOrMethod\<close>

text \<open>\<^verbatim>\<open>type embeddedType struct\<close>; a nil \<^verbatim>\<open>typ\<close> is \<open>None\<close>.\<close>

record 'h embeddedType =
  e_typ :: "'h option"
  e_index :: "int list"
  e_indirect :: bool
  e_multiples :: bool

text \<open>
  The variables of \<^verbatim>\<open>LookupFieldOrMethod\<close> that its loops read and write: the parameter
  \<^verbatim>\<open>typ\<close>, which the loop body reassigns, the three named results, the map \<^verbatim>\<open>seen\<close> (used
  as a set) and the slice \<^verbatim>\<open>next\<close>.
\<close>

record 'h vars =
  v_typ :: "'h Type"
  v_obj :: "'h Object option"
  v_index :: "int list"
  v_indirect :: bool
  v_seen :: "'h set"
  v_next :: "'h embeddedType list"

text \<open>
  How one run of a loop body ends: it goes on to the next iteration, the function returns
  with the named results as they stand, or the function panics.
\<close>

datatype 'a flow = Next 'a | Return 'a | Panic error

text \<open>
  The three places that record a potential match share their code: set \<^verbatim>\<open>index\<close>; on a
  collision clear \<^verbatim>\<open>obj\<close> and return; otherwise set \<^verbatim>\<open>obj\<close> and \<^verbatim>\<open>indirect\<close> and go on.
\<close>

definition potentialMatch :: "'h embeddedType \<Rightarrow> int \<Rightarrow> 'h Object \<Rightarrow> 'h vars \<Rightarrow> 'h vars flow" where
  "potentialMatch e i found s =
     (let s = s\<lparr>v_index := concat_index (e_index e) i\<rparr>
      in if v_obj s \<noteq> None \<or> e_multiples e
         then Return (s\<lparr>v_obj := None\<rparr>)
         else Next (s\<lparr>v_obj := Some found, v_indirect := e_indirect e\<rparr>))"

text \<open>\<^verbatim>\<open>for i, f := range t.fields\<close> of the case \<^verbatim>\<open>*Struct\<close>, from field \<open>i\<close> on.\<close>

fun rangeFields :: "(string \<Rightarrow> bool) \<Rightarrow> Package \<Rightarrow> string \<Rightarrow> 'h embeddedType \<Rightarrow> int \<Rightarrow> 'h Field list \<Rightarrow> 'h vars \<Rightarrow> 'h vars flow" where
  "rangeFields IsExported pkg name e i [] s = Next s"
| "rangeFields IsExported pkg name e i (f # fs) s =
     (if isMatch IsExported f pkg name then
        (case potentialMatch e i (FieldObj f) s of
           Next s' \<Rightarrow> rangeFields IsExported pkg name e (i + 1) fs s'
         | Return s' \<Rightarrow> Return s'
         | Panic err \<Rightarrow> Panic err)
      else if v_obj s = None \<and> anonymous f then
        (case deref (fieldTyp f) of
           (Named t, isPtr) \<Rightarrow>
             rangeFields IsExported pkg name e (i + 1) fs
               (s\<lparr>v_next := v_next s @
                  [\<lparr>e_typ = Some t, e_index = concat_index (e_index e) i,
                    e_indirect = (e_indirect e \<or> isPtr), e_multiples = e_multiples e\<rparr>]\<rparr>)
         | _ \<Rightarrow> rangeFields IsExported pkg name e (i + 1) fs s)
      else rangeFields IsExported pkg name e (i + 1) fs s)"

text \<open>\<^verbatim>\<open>switch t := typ.(type)\<close>\<close>

definition switchTyp :: "(string \<Rightarrow> bool) \<Rightarrow> Package \<Rightarrow> string \<Rightarrow> 'h embeddedType \<Rightarrow> 'h vars \<Rightarrow> 'h vars flow" where
  "switchTyp IsExported pkg name e s =
     (case v_typ s of
        Struct fs \<Rightarrow> rangeFields IsExported pkg name e 0 fs s
      | Interface ms \<Rightarrow>
          (case lookupMethod IsExported ms pkg name of
             Inl err \<Rightarrow> Panic err
           | Inr (i, Some m) \<Rightarrow> potentialMatch e i (FuncObj m) s
           | Inr (i, None) \<Rightarrow> Next s)
      | _ \<Rightarrow> Next s)"

text \<open>The body of \<^verbatim>\<open>for _, e := range current\<close>.\<close>

definition lookupEntry :: "(string \<Rightarrow> bool) \<Rightarrow> 'h TypeGraph \<Rightarrow> Package \<Rightarrow> string \<Rightarrow> 'h embeddedType \<Rightarrow> 'h vars \<Rightarrow> 'h vars flow" where
  "lookupEntry IsExported G pkg name e s =
     (case e_typ e of
        None \<Rightarrow> switchTyp IsExported pkg name e s
      | Some t \<Rightarrow>
          if t \<in> v_seen s then Next s
          else
            (let s = s\<lparr>v_seen := insert t (v_seen s)\<rparr>
             in case lookupMethod IsExported (methods (G t)) pkg name of
                  Inl err \<Rightarrow> Panic err
                | Inr (i, Some m) \<Rightarrow> potentialMatch e i (FuncObj m) s
                | Inr (i, None) \<Rightarrow> switchTyp IsExported pkg name e (s\<lparr>v_typ := underlying (G t)\<rparr>)))"

fun rangeCurrent :: "(string \<Rightarrow> bool) \<Rightarrow> 'h TypeGraph \<Rightarrow> Package \<Rightarrow> string \<Rightarrow> 'h embeddedType list \<Rightarrow> 'h vars \<Rightarrow> 'h vars flow" where
  "rangeCurrent IsExported G pkg name [] s = Next s"
| "rangeCurrent IsExported G pkg name (e # es) s =
     (case lookupEntry IsExported G pkg name e s of
        Next s' \<Rightarrow> rangeCurrent IsExported G pkg name es s'
      | Return s' \<Rightarrow> Return s'
      | Panic err \<Rightarrow> Panic err)"

text \<open>
  \<^verbatim>\<open>func consolidateMultiples(list []embeddedType) []embeddedType\<close>. The loop writes into
  the slice it ranges over; iteration \<open>k\<close> reads \<^verbatim>\<open>list[k]\<close> as it then is and writes at
  positions up to \<open>k\<close> only. The state of the loop is the slice, \<^verbatim>\<open>n\<close> and the map \<^verbatim>\<open>prev\<close>.
\<close>

definition consolidateStep ::
  "nat \<Rightarrow> 'h embeddedType list \<times> nat \<times> ('h option \<rightharpoonup> nat) \<Rightarrow> 'h embeddedType list \<times> nat \<times> ('h option \<rightharpoonup> nat)" where
  "consolidateStep k st =
     (case st of (list, n, prev) \<Rightarrow>
        (let e = list ! k
         in case prev (e_typ e) of
              Some i \<Rightarrow> (list[i := (list ! i)\<lparr>e_multiples := True\<rparr>], n, prev)
            | None \<Rightarrow> (list[n := e], n + 1, prev(e_typ e \<mapsto> n))))"

definition consolidateMultiples :: "'h embeddedType list \<Rightarrow> 'h embeddedType list" where
  "consolidateMultiples list =
     (if length list \<le> 1 then list
      else (case fold consolidateStep [0..<length list] (list, 0, Map.empty) of
              (list', n, prev) \<Rightarrow> take n list'))"

text \<open>
  \<^verbatim>\<open>for len(current) > 0\<close> with the statements that follow it. The loop is not structural:
  a run that does not return is the value \<open>None\<close>. A run that returns gives a panic or the
  three results.
\<close>

type_synonym 'h lookupResult = "'h Object option \<times> int list \<times> bool"

partial_function (option) searchDepth ::
  "(string \<Rightarrow> bool) \<Rightarrow> 'h TypeGraph \<Rightarrow> Package \<Rightarrow> string \<Rightarrow> 'h embeddedType list \<Rightarrow> 'h vars \<Rightarrow> (error + 'h lookupResult) option" where
  "searchDepth IsExported G pkg name current s =
     (if current \<noteq> [] then
        (case rangeCurrent IsExported G pkg name current (s\<lparr>v_next := []\<rparr>) of
           Panic err \<Rightarrow> Some (Inl err)
         | Return s' \<Rightarrow> Some (Inr (v_obj s', v_index s', v_indirect s'))
         | Next s' \<Rightarrow>
             if v_obj s' \<noteq> None then Some (Inr (v_obj s', v_index s', v_indirect s'))
             else searchDepth IsExported G pkg name (consolidateMultiples (v_next s')) s')
      else Some (Inr (v_obj s, [], False)))"

text \<open>The frontier and the variables with which the search enters its first iteration.\<close>

definition initialCurrent :: "'h Type \<Rightarrow> 'h embeddedType list" where
  "initialCurrent typ0 =
     (case deref typ0 of (typ1, isPtr) \<Rightarrow>
        [\<lparr>e_typ = (case typ1 of Named t \<Rightarrow> Some t | _ \<Rightarrow> None), e_index = [],
          e_indirect = isPtr, e_multiples = False\<rparr>])"

definition initialVars :: "'h Type \<Rightarrow> 'h vars" where
  "initialVars typ0 =
     \<lparr>v_typ = fst (deref typ0), v_obj = None, v_index = [], v_indirect = False,
      v_seen = {}, v_next = []\<rparr>"

text \<open>
  \<^verbatim>\<open>func LookupFieldOrMethod(typ Type, pkg *Package, name string)
       (obj Object, index []int, indirect bool)\<close>
\<close>

definition LookupFieldOrMethod ::
  "(string \<Rightarrow> bool) \<Rightarrow> 'h TypeGraph \<Rightarrow> 'h Type \<Rightarrow> Package \<Rightarrow> string \<Rightarrow> (error + 'h lookupResult) option" where
  "LookupFieldOrMethod IsExported G typ0 pkg name =
     (if name = ''_'' then Some (Inr (None, [], False))
      else searchDepth IsExported G pkg name (initialCurrent typ0) (initialVars typ0))"

declare searchDepth.simps [code]

subsection \<open>MissingMethod\<close>

text \<open>
  The \<^verbatim>\<open>*Interface\<close> \<^verbatim>\<open>T\<close> of \<^verbatim>\<open>MissingMethod\<close> is read only through \<^verbatim>\<open>T.methods\<close>, its
  required methods in method-set order.
\<close>

type_synonym 'h InterfaceT = "'h Func list"

text \<open>
  Modelled from the spec: \<^verbatim>\<open>IsEmpty\<close> of \<^verbatim>\<open>*Interface\<close> is not among the sources. The fast
  path is taken if \<^verbatim>\<open>T\<close> has no required methods.
\<close>

definition IsEmpty :: "'h InterfaceT \<Rightarrow> bool" where
  "IsEmpty T \<longleftrightarrow> T = []"

text \<open>
  Modelled from the spec: \<^verbatim>\<open>Underlying\<close> of \<^verbatim>\<open>Type\<close> is not among the sources. A named type
  has exactly one underlying type, which its object holds; any other type is its own
  underlying type.
\<close>

definition Underlying :: "'h TypeGraph \<Rightarrow> 'h Type \<Rightarrow> 'h Type" where
  "Underlying G t = (case t of Named h \<Rightarrow> underlying (G h) | _ \<Rightarrow> t)"

text \<open>
  \<^verbatim>\<open>IsIdentical\<close>, the structural identity of types, is not among the sources either. The
  checker only branches on its result, so it is a parameter of the model.

  \<^verbatim>\<open>for _, m := range T.methods\<close> for a \<^verbatim>\<open>typ\<close> whose underlying type is the interface with
  the methods \<open>ims\<close>.
\<close>

fun rangeInterface ::
  "(string \<Rightarrow> bool) \<Rightarrow> ('h Type \<Rightarrow> 'h Type \<Rightarrow> bool) \<Rightarrow> 'h Func list \<Rightarrow> 'h Func list \<Rightarrow> error + 'h Func option \<times> bool" where
  "rangeInterface IsExported IsIdentical ims [] = Inr (None, False)"
| "rangeInterface IsExported IsIdentical ims (m # ms) =
     (case lookupMethod IsExported ims (funcPkg m) (funcName m) of
        Inl err \<Rightarrow> Inl err
      | Inr (i, None) \<Rightarrow> Inr (Some m, False)
      | Inr (i, Some obj) \<Rightarrow>
          if \<not> IsIdentical (funcTyp obj) (funcTyp m) then Inr (Some m, True)
          else rangeInterface IsExported IsIdentical ims ms)"

text \<open>
  \<^verbatim>\<open>for _, m := range T.methods\<close> for a concrete \<^verbatim>\<open>typ\<close>. The type assertion
  \<^verbatim>\<open>f.typ.(*Signature)\<close> panics on a function whose type is not a signature.
\<close>

fun rangeConcrete ::
  "(string \<Rightarrow> bool) \<Rightarrow> ('h Type \<Rightarrow> 'h Type \<Rightarrow> bool) \<Rightarrow> 'h TypeGraph \<Rightarrow> 'h Type \<Rightarrow> 'h Func list
     \<Rightarrow> (error + 'h Func option \<times> bool) option" where
  "rangeConcrete IsExported IsIdentical G typ0 [] = Some (Inr (None, False))"
| "rangeConcrete IsExported IsIdentical G typ0 (m # ms) =
     (case LookupFieldOrMethod IsExported G typ0 (funcPkg m) (funcName m) of
        None \<Rightarrow> None
      | Some (Inl err) \<Rightarrow> Some (Inl err)
      | Some (Inr (None, idx, ind)) \<Rightarrow> Some (Inr (Some m, False))
      | Some (Inr (Some (FieldObj fld), idx, ind)) \<Rightarrow> Some (Inr (Some m, False))
      | Some (Inr (Some (FuncObj f), idx, ind)) \<Rightarrow>
          (case funcTyp f of
             Signature recv ps rs \<Rightarrow>
               if (case recv of
                     None \<Rightarrow> False
                   | Some rv \<Rightarrow> snd (deref (varTyp rv)) \<and> \<not> ind)
               then Some (Inr (Some m, False))
               else if \<not> IsIdentical (funcTyp f) (funcTyp m) then Some (Inr (Some m, True))
               else rangeConcrete IsExported IsIdentical G typ0 ms
           | _ \<Rightarrow> Some (Inl TypeAssertionFailed)))"

text \<open>\<^verbatim>\<open>func MissingMethod(typ Type, T *Interface) (method *Func, wrongType bool)\<close>\<close>

definition MissingMethod ::
  "(string \<Rightarrow> bool) \<Rightarrow> ('h Type \<Rightarrow> 'h Type \<Rightarrow> bool) \<Rightarrow> 'h TypeGraph \<Rightarrow> 'h Type \<Rightarrow> 'h InterfaceT
     \<Rightarrow> (error + 'h Func option \<times> bool) option" where
  "MissingMethod IsExported IsIdentical G typ0 T =
     (if IsEmpty T then Some (Inr (None, False))
      else case Underlying G typ0 of
             Interface ims \<Rightarrow> Some (rangeInterface IsExported IsIdentical ims T)
           | _ \<Rightarrow> rangeConcrete IsExported IsIdentical G typ0 T)"


section \<open>Notions used to state the properties\<close>

subsection \<open>The import graph\<close>

text \<open>The edge relation that \<^verbatim>\<open>Search\<close> follows: \<open>y\<close> is a key of \<^verbatim>\<open>g[x]\<close>.\<close>

definition edgeRel :: "Graph \<Rightarrow> (string \<times> string) set" where
  "edgeRel g = {(x, y). y \<in> set (rangeKeys g x)}"

text \<open>The nodes a \<^verbatim>\<open>map[string]bool\<close> holds as a set: the keys stored with \<^verbatim>\<open>true\<close>.\<close>

definition marked :: "(string \<rightharpoonup> bool) \<Rightarrow> string set" where
  "marked seen = {x. seen x = Some True}"

text \<open>All the nodes that occur as the target of an edge of a graph.\<close>

definition targets :: "Graph \<Rightarrow> string set" where
  "targets g = (\<Union>(x, es) \<in> set g. fst ` set es)"

text \<open>A graph that stores no key with \<^verbatim>\<open>false\<close>.\<close>

definition allTrue :: "Graph \<Rightarrow> bool" where
  "allTrue g \<longleftrightarrow> (\<forall>(x, es) \<in> set g. \<forall>(y, b) \<in> set es. b)"


text \<open>
  What one call of \<^verbatim>\<open>visit\<close>, or a loop of such calls, on the nodes \<open>xs\<close> does to the map:
  it keeps what was marked and marks \<open>xs\<close>; it marks only nodes reachable from \<open>xs\<close>;
  every newly marked node has all its successors marked; and no key is stored with
  \<^verbatim>\<open>false\<close>.
\<close>

definition visitPost :: "Graph \<Rightarrow> string set \<Rightarrow> (string \<rightharpoonup> bool) \<Rightarrow> (string \<rightharpoonup> bool) \<Rightarrow> bool" where
  "visitPost g xs s r \<longleftrightarrow>
     marked s \<union> xs \<subseteq> marked r \<and>
     marked r \<subseteq> marked s \<union> (edgeRel g)\<^sup>* `` xs \<and>
     (\<forall>u \<in> marked r - marked s. edgeRel g `` {u} \<subseteq> marked r) \<and>
     (dom s \<subseteq> marked s \<longrightarrow> dom r \<subseteq> marked r)"

subsection \<open>The lookup\<close>

text \<open>
  The visibility rule in the words of the spec: a member matches the selector if its name
  is spelled as the selector's name and the name is exported or the member's declaring
  package has the path of the requesting package.
\<close>

definition visible :: "(string \<Rightarrow> bool) \<Rightarrow> string \<Rightarrow> Package \<Rightarrow> Package \<Rightarrow> string \<Rightarrow> bool" where
  "visible IsExported memberName memberPkg pkg name \<longleftrightarrow>
     memberName = name \<and> (IsExported name \<or> path memberPkg = path pkg)"

fun objVisible :: "(string \<Rightarrow> bool) \<Rightarrow> 'h Object \<Rightarrow> Package \<Rightarrow> string \<Rightarrow> bool" where
  "objVisible IsExported (FieldObj f) pkg name = visible IsExported (fieldName f) (fieldPkg f) pkg name"
| "objVisible IsExported (FuncObj m) pkg name = visible IsExported (funcName m) (funcPkg m) pkg name"

text \<open>
  What a scan (of the fields of a struct, of one frontier entry, of a whole frontier) can
  do to the variables. If it goes on, \<^verbatim>\<open>seen\<close> has only grown, and either the results are
  untouched or \<^verbatim>\<open>obj\<close> was nil and is now a member that matches the selector, with a
  non-nil \<^verbatim>\<open>index\<close>. If it returns, \<^verbatim>\<open>obj\<close> is nil and \<^verbatim>\<open>index\<close> is not. It panics only on the
  blank name.
\<close>

definition scanned :: "(string \<Rightarrow> bool) \<Rightarrow> Package \<Rightarrow> string \<Rightarrow> 'h vars \<Rightarrow> 'h vars flow \<Rightarrow> bool" where
  "scanned IsExported pkg name s fl =
     (case fl of
        Next s' \<Rightarrow>
          v_seen s \<subseteq> v_seen s' \<and>
          ((v_obj s' = v_obj s \<and> v_index s' = v_index s \<and> v_indirect s' = v_indirect s) \<or>
           (v_obj s = None \<and> (\<exists>found. v_obj s' = Some found \<and> objVisible IsExported found pkg name) \<and>
            v_index s' \<noteq> []))
      | Return s' \<Rightarrow> v_obj s' = None \<and> v_index s' \<noteq> []
      | Panic err \<Rightarrow> name = ''_'')"

text \<open>
  The frontier and the variables with which the search enters the iteration for embedding
  depth \<open>d\<close>, if it gets there: \<open>levelAt\<close> runs \<open>d\<close> iterations of the loop, none of which
  returns, from a given frontier, and \<open>frontier\<close> does so from the start of
  \<^verbatim>\<open>LookupFieldOrMethod\<close>, which enters no iteration at all for the blank name.
\<close>

fun levelAt ::
  "(string \<Rightarrow> bool) \<Rightarrow> 'h TypeGraph \<Rightarrow> Package \<Rightarrow> string \<Rightarrow> nat \<Rightarrow> 'h embeddedType list \<Rightarrow> 'h vars
     \<Rightarrow> ('h embeddedType list \<times> 'h vars) option" where
  "levelAt IsExported G pkg name 0 current s = Some (current, s)"
| "levelAt IsExported G pkg name (Suc d) current s =
     (if current = [] then None
      else case rangeCurrent IsExported G pkg name current (s\<lparr>v_next := []\<rparr>) of
             Next s' \<Rightarrow>
               if v_obj s' \<noteq> None then None
               else levelAt IsExported G pkg name d (consolidateMultiples (v_next s')) s'
           | _ \<Rightarrow> None)"

definition frontier ::
  "(string \<Rightarrow> bool) \<Rightarrow> 'h TypeGraph \<Rightarrow> 'h Type \<Rightarrow> Package \<Rightarrow> string \<Rightarrow> nat \<Rightarrow> ('h embeddedType list \<times> 'h vars) option" where
  "frontier IsExported G typ0 pkg name d =
     (if name = ''_'' then None
      else levelAt IsExported G pkg name d (initialCurrent typ0) (initialVars typ0))"

text \<open>The result of the search if it returns in the iteration it is entering.\<close>

definition lastScan ::
  "(string \<Rightarrow> bool) \<Rightarrow> 'h TypeGraph \<Rightarrow> Package \<Rightarrow> string \<Rightarrow> 'h embeddedType list \<Rightarrow> 'h vars \<Rightarrow> (error + 'h lookupResult) option" where
  "lastScan IsExported G pkg name current s =
     (if current \<noteq> [] then
        (case rangeCurrent IsExported G pkg name current (s\<lparr>v_next := []\<rparr>) of
           Panic err \<Rightarrow> Some (Inl err)
         | Return s' \<Rightarrow> Some (Inr (v_obj s', v_index s', v_indirect s'))
         | Next s' \<Rightarrow>
             if v_obj s' \<noteq> None then Some (Inr (v_obj s', v_index s', v_indirect s'))
             else None)
      else Some (Inr (v_obj s, [], False)))"

text \<open>The named results at the head of the loop: nothing was found yet.\<close>

definition headVars :: "'h vars \<Rightarrow> bool" where
  "headVars s \<longleftrightarrow> v_obj s = None \<and> v_index s = [] \<and> v_indirect s = False"


text \<open>Frontiers all of whose entries carry a named type: all but the first one.\<close>

definition allNamed :: "'h embeddedType list \<Rightarrow> bool" where
  "allNamed es \<longleftrightarrow> (\<forall>e \<in> set es. e_typ e \<noteq> None)"


text \<open>
  An entry \<open>e'\<close> that \<^verbatim>\<open>consolidateMultiples\<close> keeps is an entry \<open>e\<close> of its argument, except
  that the flag \<^verbatim>\<open>multiples\<close> may have been set.
\<close>

definition flagged :: "'h embeddedType \<Rightarrow> 'h embeddedType \<Rightarrow> bool" where
  "flagged e e' \<longleftrightarrow>
     e_typ e' = e_typ e \<and> e_index e' = e_index e \<and> e_indirect e' = e_indirect e \<and>
     (e_multiples e \<longrightarrow> e_multiples e')"

text \<open>
  The invariant of the loop of \<^verbatim>\<open>consolidateMultiples\<close> on the slice \<open>l\<close>, before iteration
  \<open>k\<close>: the slice keeps its length; the first \<open>n\<close> positions hold the entries kept so far,
  each one an entry of \<open>l\<close> up to its flag; the positions from \<open>k\<close> on are as in \<open>l\<close>; and
  \<^verbatim>\<open>prev\<close> maps exactly the types of the kept entries to their positions.
\<close>

definition consolidated ::
  "'h embeddedType list \<Rightarrow> nat \<Rightarrow> 'h embeddedType list \<times> nat \<times> ('h option \<rightharpoonup> nat) \<Rightarrow> bool" where
  "consolidated l k st =
     (case st of (list, n, prev) \<Rightarrow>
        length list = length l \<and> n \<le> k \<and>
        (\<forall>j. k \<le> j \<and> j < length l \<longrightarrow> list ! j = l ! j) \<and>
        (\<forall>ty i. prev ty = Some i \<longrightarrow> i < n \<and> e_typ (list ! i) = ty) \<and>
        (\<forall>i < n. prev (e_typ (list ! i)) = Some i) \<and>
        (\<forall>i < n. \<exists>e \<in> set l. flagged e (list ! i)))"


text \<open>
  The quantity that decreases from one iteration of the search to the next: twice the
  number of named types not yet seen, plus one while the frontier is the first one.
\<close>

definition unseen :: "'h::finite embeddedType list \<Rightarrow> 'h vars \<Rightarrow> nat" where
  "unseen current s = 2 * card (UNIV - v_seen s) + (if allNamed current then 0 else 1)"


text \<open>
  Whether a type, a named type or a frontier entry has a member that matches the selector:
  a field of a struct or a method of an interface for a type; a declared method, or a
  member of the underlying type, for a named type; and for an entry the named type it
  carries, or the type \<^verbatim>\<open>typ\<close> if it carries none.
\<close>

definition typeMatches :: "(string \<Rightarrow> bool) \<Rightarrow> Package \<Rightarrow> string \<Rightarrow> 'h Type \<Rightarrow> bool" where
  "typeMatches IsExported pkg name t =
     (case t of
        Struct fs \<Rightarrow> (\<exists>f \<in> set fs. visible IsExported (fieldName f) (fieldPkg f) pkg name)
      | Interface ms \<Rightarrow> (\<exists>m \<in> set ms. visible IsExported (funcName m) (funcPkg m) pkg name)
      | _ \<Rightarrow> False)"

definition namedMatches :: "(string \<Rightarrow> bool) \<Rightarrow> 'h TypeGraph \<Rightarrow> Package \<Rightarrow> string \<Rightarrow> 'h \<Rightarrow> bool" where
  "namedMatches IsExported G pkg name t \<longleftrightarrow>
     (\<exists>m \<in> set (methods (G t)). visible IsExported (funcName m) (funcPkg m) pkg name) \<or>
     typeMatches IsExported pkg name (underlying (G t))"

definition entryMatches :: "(string \<Rightarrow> bool) \<Rightarrow> 'h TypeGraph \<Rightarrow> Package \<Rightarrow> string \<Rightarrow> 'h Type \<Rightarrow> 'h embeddedType \<Rightarrow> bool" where
  "entryMatches IsExported G pkg name typ0 e =
     (case e_typ e of
        None \<Rightarrow> typeMatches IsExported pkg name typ0
      | Some t \<Rightarrow> namedMatches IsExported G pkg name t)"


text \<open>No named type that the search has seen has a matching member.\<close>

definition matchFree :: "(string \<Rightarrow> bool) \<Rightarrow> 'h TypeGraph \<Rightarrow> Package \<Rightarrow> string \<Rightarrow> 'h set \<Rightarrow> bool" where
  "matchFree IsExported G pkg name seen \<longleftrightarrow> (\<forall>t \<in> seen. \<not> namedMatches IsExported G pkg name t)"


text \<open>
  What holds of the frontier and the variables whenever the search enters an iteration:
  nothing is found yet, no seen type has a match, no two entries carry the same type, and
  either every entry carries a named type or the frontier is the first one, a single entry
  that is not flagged.
\<close>

definition frontierOK ::
  "(string \<Rightarrow> bool) \<Rightarrow> 'h TypeGraph \<Rightarrow> Package \<Rightarrow> string \<Rightarrow> 'h embeddedType list \<Rightarrow> 'h vars \<Rightarrow> bool" where
  "frontierOK IsExported G pkg name current s \<longleftrightarrow>
     headVars s \<and> matchFree IsExported G pkg name (v_seen s) \<and> distinct (map e_typ current) \<and>
     (allNamed current \<or> (\<exists>e. current = [e] \<and> \<not> e_multiples e))"


text \<open>
  What \<^verbatim>\<open>MissingMethod\<close> makes of one required method, in the words of the spec. For a type
  whose underlying type is an interface: the method is missing if the method set has no
  method of that package and name, and of the wrong type if it has one whose signature is
  not identical. For a concrete type, with the selector resolved by
  \<^verbatim>\<open>LookupFieldOrMethod\<close>: the method is missing if the result is absent, or is not a method,
  or is a method whose declared receiver is a pointer while the resolution needed no
  indirection; else it is of the wrong type if the signatures are not identical. The spec
  is silent on the panics of the code (a blank method name looked up in an interface, a
  function whose type is not a signature) and on a lookup that does not return; they are
  verdicts of their own.
\<close>

datatype verdict = Satisfied | Missing | WrongType | Crash error | Diverges

definition isPointer :: "'h Type \<Rightarrow> bool" where
  "isPointer t = (case t of Pointer b \<Rightarrow> True | _ \<Rightarrow> False)"

definition isInterface :: "'h Type \<Rightarrow> bool" where
  "isInterface t = (case t of Interface ms \<Rightarrow> True | _ \<Rightarrow> False)"

definition interfaceVerdict ::
  "(string \<Rightarrow> bool) \<Rightarrow> ('h Type \<Rightarrow> 'h Type \<Rightarrow> bool) \<Rightarrow> 'h Func list \<Rightarrow> 'h Func \<Rightarrow> verdict" where
  "interfaceVerdict IsExported IsIdentical ims m =
     (if funcName m = ''_'' then Crash AssertionFailed
      else case find (\<lambda>m'. visible IsExported (funcName m') (funcPkg m') (funcPkg m) (funcName m)) ims of
             None \<Rightarrow> Missing
           | Some obj \<Rightarrow> if IsIdentical (funcTyp obj) (funcTyp m) then Satisfied else WrongType)"

definition concreteVerdict ::
  "(string \<Rightarrow> bool) \<Rightarrow> ('h Type \<Rightarrow> 'h Type \<Rightarrow> bool) \<Rightarrow> 'h TypeGraph \<Rightarrow> 'h Type \<Rightarrow> 'h Func \<Rightarrow> verdict" where
  "concreteVerdict IsExported IsIdentical G typ0 m =
     (case LookupFieldOrMethod IsExported G typ0 (funcPkg m) (funcName m) of
        None \<Rightarrow> Diverges
      | Some (Inl err) \<Rightarrow> Crash err
      | Some (Inr (None, idx, ind)) \<Rightarrow> Missing
      | Some (Inr (Some (FieldObj fld), idx, ind)) \<Rightarrow> Missing
      | Some (Inr (Some (FuncObj f), idx, ind)) \<Rightarrow>
          (case funcTyp f of
             Signature recv ps rs \<Rightarrow>
               if (case recv of None \<Rightarrow> False | Some rv \<Rightarrow> isPointer (varTyp rv)) \<and> \<not> ind
               then Missing
               else if IsIdentical (funcTyp f) (funcTyp m) then Satisfied
               else WrongType
           | _ \<Rightarrow> Crash TypeAssertionFailed))"

definition requiredMethod ::
  "(string \<Rightarrow> bool) \<Rightarrow> ('h Type \<Rightarrow> 'h Type \<Rightarrow> bool) \<Rightarrow> 'h TypeGraph \<Rightarrow> 'h Type \<Rightarrow> 'h Func \<Rightarrow> verdict" where
  "requiredMethod IsExported IsIdentical G typ0 m =
     (case Underlying G typ0 of
        Interface ims \<Rightarrow> interfaceVerdict IsExported IsIdentical ims m
      | _ \<Rightarrow> concreteVerdict IsExported IsIdentical G typ0 m)"

text \<open>
  The answer of the checker in the words of the spec: the first required method of \<open>T\<close>, in
  the order of its method set, that is not satisfied, with the flag set exactly if its
  verdict is the wrong type; (nil, false) if every required method is satisfied.
\<close>

definition firstUnsatisfied ::
  "('h Func \<Rightarrow> verdict) \<Rightarrow> 'h InterfaceT \<Rightarrow> (error + 'h Func option \<times> bool) option" where
  "firstUnsatisfied v T =
     (case find (\<lambda>m. v m \<noteq> Satisfied) T of
        None \<Rightarrow> Some (Inr (None, False))
      | Some m \<Rightarrow>
          (case v m of
             Crash err \<Rightarrow> Some (Inl err)
           | Diverges \<Rightarrow> None
           | w \<Rightarrow> Some (Inr (Some m, w = WrongType))))"


section \<open>A type graph for the examples\<close>

text \<open>
  The named types of the examples, all of package \<open>p\<close>:
  \<^verbatim>\<open>
  type S struct { Embedded; X int }
  type Embedded struct { X int };  func (Embedded) M()
  type A struct { B };  type B struct { *A }
  type Top struct { L; R }
  type L struct { Base; y int };  type R struct { Base; y int }
  type Base struct { x int }
  type V struct {};  func (V) Get() int;  func (*V) Set(int)
  type W struct { *V }
  \<close>
\<close>

datatype tname = T_S | T_Embedded | T_A | T_B | T_Top | T_L | T_R | T_Base | T_V | T_W

instance tname :: finite
proof
  have "(UNIV :: tname set) \<subseteq> {T_S, T_Embedded, T_A, T_B, T_Top, T_L, T_R, T_Base, T_V, T_W}"
  proof
    fix x :: tname
    show "x \<in> {T_S, T_Embedded, T_A, T_B, T_Top, T_L, T_R, T_Base, T_V, T_W}"
      by (cases x) simp_all
  qed
  then show "finite (UNIV :: tname set)" by (rule finite_subset) simp
qed

text \<open>
  The names of the examples are ASCII, where \<^verbatim>\<open>ast.IsExported\<close> is: the name begins with a
  letter from \<open>A\<close> to \<open>Z\<close>.
\<close>

definition exExported :: "string \<Rightarrow> bool" where
  "exExported name = (case name of [] \<Rightarrow> False | c # _ \<Rightarrow> c \<in> set ''ABCDEFGHIJKLMNOPQRSTUVWXYZ'')"

definition pkgP :: Package where
  "pkgP = \<lparr>path = ''p''\<rparr>"

definition pkgQ :: Package where
  "pkgQ = \<lparr>path = ''q''\<rparr>"

definition intT :: "tname Type" where
  "intT = Basic ''int''"

definition funcM :: "tname Func" where
  "funcM = Func ''M'' pkgP (Signature (Some (Var ''e'' (Named T_Embedded))) [] [])"

definition funcGet :: "tname Func" where
  "funcGet = Func ''Get'' pkgP (Signature (Some (Var ''v'' (Named T_V))) [] [intT])"

definition funcSet :: "tname Func" where
  "funcSet = Func ''Set'' pkgP (Signature (Some (Var ''v'' (Pointer (Named T_V)))) [intT] [])"

definition exGraph :: "tname TypeGraph" where
  "exGraph t =
     (case t of
        T_S \<Rightarrow> \<lparr>methods = [], underlying = Struct
          [Field ''Embedded'' pkgP (Named T_Embedded) True, Field ''X'' pkgP intT False]\<rparr>
      | T_Embedded \<Rightarrow> \<lparr>methods = [funcM], underlying = Struct [Field ''X'' pkgP intT False]\<rparr>
      | T_A \<Rightarrow> \<lparr>methods = [], underlying = Struct [Field ''B'' pkgP (Named T_B) True]\<rparr>
      | T_B \<Rightarrow> \<lparr>methods = [], underlying = Struct [Field ''A'' pkgP (Pointer (Named T_A)) True]\<rparr>
      | T_Top \<Rightarrow> \<lparr>methods = [], underlying = Struct
          [Field ''L'' pkgP (Named T_L) True, Field ''R'' pkgP (Named T_R) True]\<rparr>
      | T_L \<Rightarrow> \<lparr>methods = [], underlying = Struct
          [Field ''Base'' pkgP (Named T_Base) True, Field ''y'' pkgP intT False]\<rparr>
      | T_R \<Rightarrow> \<lparr>methods = [], underlying = Struct
          [Field ''Base'' pkgP (Named T_Base) True, Field ''y'' pkgP intT False]\<rparr>
      | T_Base \<Rightarrow> \<lparr>methods = [], underlying = Struct [Field ''x'' pkgP intT False]\<rparr>
      | T_V \<Rightarrow> \<lparr>methods = [funcGet, funcSet], underlying = Struct []\<rparr>
      | T_W \<Rightarrow> \<lparr>methods = [], underlying = Struct [Field ''V'' pkgP (Pointer (Named T_V)) True]\<rparr>)"

text \<open>
  An identity of types for the examples: two signatures are identical if their parameters
  and results are, whatever their receivers.
\<close>

fun exIdentical :: "tname Type \<Rightarrow> tname Type \<Rightarrow> bool" where
  "exIdentical (Signature r1 ps1 rs1) (Signature r2 ps2 rs2) \<longleftrightarrow> ps1 = ps2 \<and> rs1 = rs2"
| "exIdentical t1 t2 \<longleftrightarrow> t1 = t2"

text \<open>
  Required methods for the examples: \<^verbatim>\<open>Get() int\<close>, \<^verbatim>\<open>Set(int)\<close>, \<^verbatim>\<open>Absent()\<close> and
  \<^verbatim>\<open>Get() string\<close>.
\<close>

definition getI :: "tname Func" where
  "getI = Func ''Get'' pkgP (Signature None [] [intT])"

definition setI :: "tname Func" where
  "setI = Func ''Set'' pkgP (Signature None [intT] [])"

definition absentI :: "tname Func" where
  "absentI = Func ''Absent'' pkgP (Signature None [] [])"

definition getStringI :: "tname Func" where
  "getStringI = Func ''Get'' pkgP (Signature None [] [Basic ''string''])"


section \<open>Properties of the import graph\<close>

lemma visit_marked: "seen x = Some True \<Longrightarrow> visit g x seen = Some seen"
  by (subst visit.simps) simp

lemma visit_unmarked:
  "seen x \<noteq> Some True \<Longrightarrow>
   visit g x seen = forEach (rangeKeys g x) (\<lambda>y s. visit g y s) (seen(x \<mapsto> True))"
  by (subst visit.simps) simp

lemma forEach_post:
  assumes "\<And>y s r. body y s = Some r \<Longrightarrow> visitPost g {y} s r"
  shows "forEach ys body s = Some r \<Longrightarrow> visitPost g (set ys) s r"
proof (induction ys arbitrary: s)
  case Nil
  then show ?case by (simp add: visitPost_def)
next
  case (Cons y ys)
  from Cons.prems obtain s' where b: "body y s = Some s'" and f: "forEach ys body s' = Some r"
    by (auto split: option.splits)
  from assms[OF b] have 1: "visitPost g {y} s s'" .
  from Cons.IH[OF f] have 2: "visitPost g (set ys) s' r" .
  have sub: "(edgeRel g)\<^sup>* `` {y} \<subseteq> (edgeRel g)\<^sup>* `` set (y # ys)"
    "(edgeRel g)\<^sup>* `` set ys \<subseteq> (edgeRel g)\<^sup>* `` set (y # ys)" by auto
  have a: "marked s \<union> set (y # ys) \<subseteq> marked r"
    using 1 2 unfolding visitPost_def by auto
  have b': "marked r \<subseteq> marked s \<union> (edgeRel g)\<^sup>* `` set (y # ys)"
  proof
    fix u assume "u \<in> marked r"
    with 2 have "u \<in> marked s' \<or> u \<in> (edgeRel g)\<^sup>* `` set ys" unfolding visitPost_def by blast
    moreover have "marked s' \<subseteq> marked s \<union> (edgeRel g)\<^sup>* `` {y}" using 1 unfolding visitPost_def by blast
    ultimately show "u \<in> marked s \<union> (edgeRel g)\<^sup>* `` set (y # ys)" using sub by blast
  qed
  have c: "\<forall>u \<in> marked r - marked s. edgeRel g `` {u} \<subseteq> marked r"
  proof
    fix u assume u: "u \<in> marked r - marked s"
    show "edgeRel g `` {u} \<subseteq> marked r"
    proof (cases "u \<in> marked s'")
      case True
      with u 1 have "edgeRel g `` {u} \<subseteq> marked s'" unfolding visitPost_def by blast
      moreover have "marked s' \<subseteq> marked r" using 2 unfolding visitPost_def by blast
      ultimately show ?thesis by blast
    next
      case False
      with u 2 show ?thesis unfolding visitPost_def by blast
    qed
  qed
  have d: "dom s \<subseteq> marked s \<longrightarrow> dom r \<subseteq> marked r"
    using 1 2 unfolding visitPost_def by blast
  show ?case unfolding visitPost_def using a b' c d by blast
qed


lemma marked_upd: "marked (seen(x \<mapsto> True)) = insert x (marked seen)"
  by (auto simp: marked_def)

lemma visit_step_post:
  assumes nm: "seen x \<noteq> Some True"
    and post: "visitPost g (set (rangeKeys g x)) (seen(x \<mapsto> True)) r"
  shows "visitPost g {x} seen r"
proof -
  let ?E = "edgeRel g"
  have succ: "?E `` {x} = set (rangeKeys g x)" by (auto simp: edgeRel_def)
  have x: "x \<notin> marked seen" using nm by (simp add: marked_def)
  have a: "marked seen \<union> {x} \<subseteq> marked r"
    using post unfolding visitPost_def marked_upd by blast
  have "?E\<^sup>* `` set (rangeKeys g x) \<subseteq> ?E\<^sup>* `` {x}"
    using succ by (auto intro: converse_rtrancl_into_rtrancl)
  moreover have "marked r \<subseteq> insert x (marked seen) \<union> ?E\<^sup>* `` set (rangeKeys g x)"
    using post unfolding visitPost_def marked_upd by blast
  ultimately have b: "marked r \<subseteq> marked seen \<union> ?E\<^sup>* `` {x}" by blast
  have c: "\<forall>u \<in> marked r - marked seen. ?E `` {u} \<subseteq> marked r"
  proof
    fix u assume u: "u \<in> marked r - marked seen"
    show "?E `` {u} \<subseteq> marked r"
    proof (cases "u = x")
      case True
      then show ?thesis using post succ unfolding visitPost_def by blast
    next
      case False
      with u have "u \<in> marked r - marked (seen(x \<mapsto> True))" by (simp add: marked_upd)
      then show ?thesis using post unfolding visitPost_def by blast
    qed
  qed
  have d: "dom seen \<subseteq> marked seen \<longrightarrow> dom r \<subseteq> marked r"
  proof
    assume "dom seen \<subseteq> marked seen"
    then have "dom (seen(x \<mapsto> True)) \<subseteq> marked (seen(x \<mapsto> True))"
      by (auto simp: marked_upd)
    then show "dom r \<subseteq> marked r" using post unfolding visitPost_def by blast
  qed
  show ?thesis unfolding visitPost_def using a b c d by blast
qed

lemma visit_post:
  assumes ret: "visit g x seen = Some r"
  shows "visitPost g {x} seen r"
proof -
  have step: "visitPost g {x} seen r"
    if IH: "\<And>g x seen r. f g x seen = Some r \<Longrightarrow> visitPost g {x} seen r"
      and body: "(if seen x \<noteq> Some True
                  then forEach (rangeKeys g x) (f g) (seen(x \<mapsto> True))
                  else Some seen) = Some r"
    for f :: "Graph \<Rightarrow> string \<Rightarrow> (string \<rightharpoonup> bool) \<Rightarrow> (string \<rightharpoonup> bool) option"
      and g x seen r
  proof (cases "seen x = Some True")
    case True
    with body have "r = seen" by simp
    moreover have "x \<in> marked seen" using True by (simp add: marked_def)
    ultimately show ?thesis by (auto simp: visitPost_def)
  next
    case False
    with body have "forEach (rangeKeys g x) (f g) (seen(x \<mapsto> True)) = Some r" by simp
    then have "visitPost g (set (rangeKeys g x)) (seen(x \<mapsto> True)) r"
      by (rule forEach_post[rotated]) (rule IH)
    with False show ?thesis by (rule visit_step_post)
  qed
  have "(case ((g, x), seen) of (a, s) \<Rightarrow> (case a of (g, x) \<Rightarrow> \<lambda>s r. visitPost g {x} s r) s) r"
  proof (rule visit.raw_induct[where P = "\<lambda>g x seen r. visitPost g {x} seen r"])
    show "(case ((g, x), seen) of (a, s) \<Rightarrow> (case a of (g, x) \<Rightarrow> visit g x) s) = Some r"
      using ret by simp
  next
    fix f :: "Graph \<Rightarrow> string \<Rightarrow> (string \<rightharpoonup> bool) \<Rightarrow> (string \<rightharpoonup> bool) option"
    fix g x seen r
    assume "\<And>g x seen r. f g x seen = Some r \<Longrightarrow> visitPost g {x} seen r"
      and "(if seen x \<noteq> Some True
                  then forEach (rangeKeys g x) (f g) (seen(x \<mapsto> True))
                  else Some seen) = Some r"
    then show "visitPost g {x} seen r" by (rule step)
  qed
  then show ?thesis by simp
qed


lemma visit_grows: "visit g x seen = Some r \<Longrightarrow> marked seen \<subseteq> marked r"
  using visit_post[of g x seen r] by (simp add: visitPost_def)

lemma forEach_returns:
  assumes body: "\<And>y s. y \<in> set ys \<Longrightarrow> marked s0 \<subseteq> marked s \<Longrightarrow> \<exists>r. body y s = Some r"
    and grows: "\<And>y s r. body y s = Some r \<Longrightarrow> marked s \<subseteq> marked r"
  shows "marked s0 \<subseteq> marked s \<Longrightarrow> \<exists>r. forEach ys body s = Some r"
  using body
proof (induction ys arbitrary: s)
  case Nil
  then show ?case by simp
next
  case (Cons y ys)
  from Cons.prems(2)[of y s] Cons.prems(1) obtain s' where s': "body y s = Some s'" by auto
  with grows have "marked s \<subseteq> marked s'" by simp
  with Cons.prems(1) have "marked s0 \<subseteq> marked s'" by simp
  then have "\<exists>r. forEach ys body s' = Some r"
    by (rule Cons.IH) (use Cons.prems(2) in auto)
  with s' show ?case by simp
qed

lemma visit_returns:
  assumes fin: "finite V" and closed: "edgeRel g `` V \<subseteq> V"
  shows "x \<in> V \<Longrightarrow> \<exists>r. visit g x seen = Some r"
proof (induction "card (V - marked seen)" arbitrary: x seen rule: less_induct)
  case less
  show ?case
  proof (cases "seen x = Some True")
    case True
    then show ?thesis by (simp add: visit_marked)
  next
    case False
    let ?s0 = "seen(x \<mapsto> True)"
    have "x \<in> V - marked seen" using False less.prems by (simp add: marked_def)
    then have "V - marked ?s0 \<subset> V - marked seen"
      by (auto simp: marked_upd)
    then have lt: "card (V - marked ?s0) < card (V - marked seen)"
      using fin by (intro psubset_card_mono) auto
    have "\<exists>r. forEach (rangeKeys g x) (\<lambda>y s. visit g y s) ?s0 = Some r"
    proof (rule forEach_returns[where ?s0.0 = ?s0])
      fix y s assume y: "y \<in> set (rangeKeys g x)" and s: "marked ?s0 \<subseteq> marked s"
      have "y \<in> V" using y less.prems closed by (auto simp: edgeRel_def)
      moreover have "card (V - marked s) \<le> card (V - marked ?s0)"
        using s fin by (auto intro!: card_mono)
      ultimately show "\<exists>r. visit g y s = Some r" using lt less.hyps[of s y] by simp
    next
      fix y s r assume "visit g y s = Some r"
      then show "marked s \<subseteq> marked r" by (rule visit_grows)
    qed simp
    then show ?thesis using False by (simp add: visit_unmarked)
  qed
qed

lemma map_of_targets: "map_of g x = Some es \<Longrightarrow> fst ` set es \<subseteq> targets g"
  by (auto simp: targets_def dest!: map_of_SomeD)

lemma Range_edgeRel: "Range (edgeRel g) \<subseteq> targets g"
proof
  fix y assume "y \<in> Range (edgeRel g)"
  then obtain x where "y \<in> set (rangeKeys g x)" by (auto simp: edgeRel_def)
  then obtain es where "map_of g x = Some es" and "y \<in> fst ` set es"
    by (cases "map_of g x") (auto simp: rangeKeys_def)
  then show "y \<in> targets g" using map_of_targets by blast
qed

lemma finite_targets: "finite (targets g)"
  by (auto simp: targets_def)

lemma closed_rtrancl:
  assumes "X \<subseteq> S" and "\<forall>u \<in> S. E `` {u} \<subseteq> S"
  shows "E\<^sup>* `` X \<subseteq> S"
proof
  fix y assume "y \<in> E\<^sup>* `` X"
  then obtain x where "x \<in> X" and "(x, y) \<in> E\<^sup>*" by auto
  from this(2) this(1) show "y \<in> S"
    by (induction rule: rtrancl_induct) (use assms in auto)
qed

lemma set_update_subset: "set (AList.update k v al) \<subseteq> insert (k, v) (set al)"
  by (induction al) auto

lemma targets_addEdge: "targets (addEdge g src dst) \<subseteq> insert dst (targets g)"
proof -
  let ?es = "case map_of g src of None \<Rightarrow> [] | Some es \<Rightarrow> es"
  have es: "fst ` set ?es \<subseteq> targets g"
    by (cases "map_of g src") (use map_of_targets in auto)
  have "fst ` set (AList.update dst True ?es) = {dst} \<union> fst ` set ?es"
    by (rule dom_update)
  with es have new: "fst ` set (AList.update dst True ?es) \<subseteq> insert dst (targets g)" by auto
  have "set (addEdge g src dst) \<subseteq> insert (src, AList.update dst True ?es) (set g)"
    unfolding addEdge_def Let_def by (rule set_update_subset)
  then have "targets (addEdge g src dst) \<subseteq> fst ` set (AList.update dst True ?es) \<union> targets g"
    unfolding targets_def by auto
  then show ?thesis using new by blast
qed

lemma keys_addEdge: "fst ` set (addEdge g from to) = insert from (fst ` set g)"
  unfolding addEdge_def Let_def by (simp add: dom_update)

lemma fold_receive_inv:
  "''C'' \<notin> targets (forward b) \<Longrightarrow> ''C'' \<notin> fst ` set (reverse b) \<Longrightarrow>
   ''C'' \<notin> targets (forward (fold receive ch b)) \<and> ''C'' \<notin> fst ` set (reverse (fold receive ch b))"
proof (induction ch arbitrary: b)
  case Nil
  then show ?case by simp
next
  case (Cons e ch)
  have "''C'' \<notin> targets (forward (receive e b)) \<and> ''C'' \<notin> fst ` set (reverse (receive e b))"
  proof (cases e)
    case (pathError p err)
    then show ?thesis using Cons.prems by simp
  next
    case (importEdge src dst)
    show ?thesis
    proof (cases "dst = ''C''")
      case True
      then show ?thesis using importEdge Cons.prems by simp
    next
      case False
      then show ?thesis using importEdge Cons.prems targets_addEdge[of "forward b" src dst]
        by (auto simp: keys_addEdge)
    qed
  qed
  then show ?case using Cons.IH[of "receive e b"] by simp
qed


text \<open>
  \<^verbatim>\<open>addEdge\<close> stores \<^verbatim>\<open>true\<close> only, so in the graphs that \<^verbatim>\<open>Build\<close> returns the keys of
  \<^verbatim>\<open>g[x]\<close>, which the search follows, are the nodes \<open>y\<close> with \<^verbatim>\<open>g[x][y]\<close> true.
\<close>

lemma allTrue_addEdge: "allTrue g \<Longrightarrow> allTrue (addEdge g src dst)"
proof -
  assume g: "allTrue g"
  let ?es = "case map_of g src of None \<Rightarrow> [] | Some es \<Rightarrow> es"
  have es: "\<forall>(y, b) \<in> set ?es. b"
  proof (cases "map_of g src")
    case None
    then show ?thesis by simp
  next
    case (Some es)
    then have "(src, es) \<in> set g" by (rule map_of_SomeD)
    with g Some show ?thesis by (auto simp: allTrue_def)
  qed
  have "set (AList.update dst True ?es) \<subseteq> insert (dst, True) (set ?es)"
    by (rule set_update_subset)
  with es have new: "\<forall>(y, b) \<in> set (AList.update dst True ?es). b" by blast
  have "set (addEdge g src dst) \<subseteq> insert (src, AList.update dst True ?es) (set g)"
    unfolding addEdge_def Let_def by (rule set_update_subset)
  with g new show ?thesis unfolding allTrue_def by blast
qed

lemma allTrue_fold_receive:
  "allTrue (forward b) \<Longrightarrow> allTrue (reverse b) \<Longrightarrow>
   allTrue (forward (fold receive ch b)) \<and> allTrue (reverse (fold receive ch b))"
proof (induction ch arbitrary: b)
  case Nil
  then show ?case by simp
next
  case (Cons e ch)
  have "allTrue (forward (receive e b)) \<and> allTrue (reverse (receive e b))"
    using Cons.prems by (cases e) (simp_all add: allTrue_addEdge)
  then show ?case using Cons.IH[of "receive e b"] by simp
qed

lemma Build_allTrue: "allTrue (forward (Build ch)) \<and> allTrue (reverse (Build ch))"
  unfolding Build_def by (rule allTrue_fold_receive) (simp_all add: allTrue_def)

lemma allTrue_edgeRel:
  assumes "allTrue g"
  shows "edgeRel g = {(x, y). \<exists>es. map_of g x = Some es \<and> map_of es y = Some True}"
proof -
  have "y \<in> set (rangeKeys g x) \<longleftrightarrow> (\<exists>es. map_of g x = Some es \<and> map_of es y = Some True)" for x y
  proof (cases "map_of g x")
    case None
    then show ?thesis by (simp add: rangeKeys_def)
  next
    case (Some es)
    then have "(x, es) \<in> set g" by (rule map_of_SomeD)
    with assms have t: "\<forall>(y, b) \<in> set es. b" by (auto simp: allTrue_def)
    have "y \<in> fst ` set es \<longleftrightarrow> map_of es y = Some True"
    proof
      assume "y \<in> fst ` set es"
      then have "map_of es y \<noteq> None" by (simp add: map_of_eq_None_iff)
      then obtain b where "map_of es y = Some b" by blast
      moreover from this have "(y, b) \<in> set es" by (rule map_of_SomeD)
      ultimately show "map_of es y = Some True" using t by auto
    next
      assume "map_of es y = Some True"
      then have "(y, True) \<in> set es" by (rule map_of_SomeD)
      then show "y \<in> fst ` set es" by force
    qed
    with Some show ?thesis by (simp add: rangeKeys_def)
  qed
  then show ?thesis by (auto simp: edgeRel_def)
qed


subsection \<open>Search is the reflexive transitive closure\<close>

text \<open>
  C7: for every graph, cyclic or not, and every list of roots, \<^verbatim>\<open>Search\<close> returns, and the
  nodes of its result are exactly those related to a root by the reflexive transitive
  closure of the edge relation: every root, everything reached by following edges
  forwards, and nothing else. The forward graph that \<^verbatim>\<open>Build\<close> returns is one such graph.
\<close>

theorem Search_closure:
  "\<exists>seen. Search g roots = Some seen \<and>
     {x. seen x = Some True} = (edgeRel g)\<^sup>* `` set roots \<and>
     dom seen = (edgeRel g)\<^sup>* `` set roots"
proof -
  let ?V = "set roots \<union> targets g"
  have fin: "finite ?V" by (simp add: finite_targets)
  have closed: "edgeRel g `` ?V \<subseteq> ?V" using Range_edgeRel by blast
  have "\<exists>r. forEach roots (\<lambda>root s. visit g root s) Map.empty = Some r"
  proof (rule forEach_returns[where ?s0.0 = Map.empty])
    fix y s assume "y \<in> set roots"
    then show "\<exists>r. visit g y s = Some r" using visit_returns[OF fin closed, of y s] by simp
  next
    fix y s r assume "visit g y s = Some r"
    then show "marked s \<subseteq> marked r" by (rule visit_grows)
  qed simp
  then obtain seen where seen: "Search g roots = Some seen" by (auto simp: Search_def)
  then have "visitPost g (set roots) Map.empty seen"
    unfolding Search_def by (rule forEach_post[rotated]) (rule visit_post)
  then have a: "set roots \<subseteq> marked seen"
    and b: "marked seen \<subseteq> (edgeRel g)\<^sup>* `` set roots"
    and c: "\<forall>u \<in> marked seen. edgeRel g `` {u} \<subseteq> marked seen"
    and d: "dom seen \<subseteq> marked seen"
    by (auto simp: visitPost_def marked_def)
  from a c have "(edgeRel g)\<^sup>* `` set roots \<subseteq> marked seen" by (rule closed_rtrancl)
  with b have eq: "marked seen = (edgeRel g)\<^sup>* `` set roots" by blast
  moreover have "marked seen \<subseteq> dom seen" by (auto simp: marked_def)
  ultimately show ?thesis using seen d by (auto simp: marked_def)
qed

text \<open>
  The workspace of three packages in which \<open>a\<close> imports \<open>b\<close> and \<open>b\<close> imports \<open>c\<close>, with an
  import of \<open>a\<close> added to \<open>c\<close> to close a cycle: from the root \<open>a\<close> the search returns
  \<open>a\<close>, \<open>b\<close> and \<open>c\<close>, which is therefore the closure.
\<close>

theorem Search_closure_witness:
  "(edgeRel (forward (Build ([importEdge ''a'' ''b'', importEdge ''b'' ''c'', importEdge ''c'' ''a''] :: unit event list))))\<^sup>*
      `` set [''a''] = {''a'', ''b'', ''c''}"
proof -
  let ?g = "forward (Build ([importEdge ''a'' ''b'', importEdge ''b'' ''c'', importEdge ''c'' ''a''] :: unit event list))"
  have g: "?g = [(''a'', [(''b'', True)]), (''b'', [(''c'', True)]), (''c'', [(''a'', True)])]"
    by (simp add: Build_def addEdge_def)
  have run: "Search ?g [''a''] = Some [''a'' \<mapsto> True, ''b'' \<mapsto> True, ''c'' \<mapsto> True]"
    unfolding g by (simp add: Search_def visit_marked visit_unmarked rangeKeys_def)
  from Search_closure[of ?g "[''a'']"] run
  have "(edgeRel ?g)\<^sup>* `` set [''a'']
      = dom [''a'' \<mapsto> True, ''b'' \<mapsto> True, ''c'' \<mapsto> (True::bool)]"
    by auto
  then show ?thesis by auto
qed

subsection \<open>The pseudo-package C\<close>

text \<open>
  C8: whatever the channel delivers, and however many packages import \<open>C\<close>, the graphs
  that \<^verbatim>\<open>Build\<close> returns hold no edge into \<open>C\<close>: \<open>C\<close> is the target of no edge of the
  forward graph and is not a key of the reverse graph.
\<close>

theorem Build_no_C:
  "''C'' \<notin> targets (forward (Build ch)) \<and> ''C'' \<notin> fst ` set (reverse (Build ch))"
  unfolding Build_def by (rule fold_receive_inv) (simp_all add: targets_def)

theorem Build_no_C_witness:
  "''C'' \<notin> targets (forward (Build (produce ''a'' None
       (Imported \<lparr>Imports = [''C'', ''b''], TestImports = [''C''], XTestImports = []\<rparr>)
         :: unit event list)))
   \<and> forward (Build (produce ''a'' None
       (Imported \<lparr>Imports = [''C'', ''b''], TestImports = [''C''], XTestImports = []\<rparr>)
         :: unit event list)) = [(''a'', [(''b'', True)])]"
  using Build_no_C[of "produce ''a'' None
       (Imported \<lparr>Imports = [''C'', ''b''], TestImports = [''C''], XTestImports = []\<rparr>)"]
  by (simp add: Build_def addEdge_def)

subsection \<open>Roots that the graph does not know\<close>

text \<open>
  C10: a root is marked before its successors are enumerated, so the search from a single
  root that has no entry in the graph returns, with exactly that root; the search from no
  root at all returns the empty map.
\<close>

theorem Search_unknown_root:
  "(map_of g root = None \<longrightarrow> Search g [root] = Some [root \<mapsto> True]) \<and> Search g [] = Some Map.empty"
  by (simp add: Search_def visit_unmarked rangeKeys_def)

theorem Search_unknown_root_witness:
  "Search [(''a'', [(''b'', True)])] [''z''] = Some [''z'' \<mapsto> True]"
  using Search_unknown_root[of "[(''a'', [(''b'', True)])]" "''z''"] by simp

section \<open>Properties of the lookup\<close>

subsection \<open>Scanning one depth\<close>

lemma lookupMethod_range_Some:
  "lookupMethod_range IsExported i ms pkg name = (j, Some m) \<Longrightarrow>
     i \<le> j \<and> nat (j - i) < length ms \<and> ms ! nat (j - i) = m \<and>
     visible IsExported (funcName m) (funcPkg m) pkg name \<and>
     (\<forall>k < nat (j - i). \<not> visible IsExported (funcName (ms ! k)) (funcPkg (ms ! k)) pkg name)"
proof (induction ms arbitrary: i)
  case Nil
  then show ?case by simp
next
  case (Cons a ms)
  show ?case
  proof (cases "visible IsExported (funcName a) (funcPkg a) pkg name")
    case True
    with Cons.prems show ?thesis by (auto simp: visible_def)
  next
    case False
    with Cons.prems have r: "lookupMethod_range IsExported (i + 1) ms pkg name = (j, Some m)"
      by (auto simp: visible_def)
    from Cons.IH[OF r] have ih: "i + 1 \<le> j" "nat (j - (i + 1)) < length ms"
      "ms ! nat (j - (i + 1)) = m" "visible IsExported (funcName m) (funcPkg m) pkg name"
      "\<forall>k < nat (j - (i + 1)). \<not> visible IsExported (funcName (ms ! k)) (funcPkg (ms ! k)) pkg name"
      by auto
    have eq: "nat (j - i) = Suc (nat (j - (i + 1)))" using ih(1) by simp
    show ?thesis unfolding eq using ih False by (auto simp: less_Suc_eq_0_disj)
  qed
qed

lemma lookupMethod_range_None:
  "lookupMethod_range IsExported i ms pkg name = (j, None) \<longleftrightarrow>
     j = -1 \<and> (\<forall>m \<in> set ms. \<not> visible IsExported (funcName m) (funcPkg m) pkg name)"
  by (induction ms arbitrary: i) (auto simp: visible_def)

lemma lookupMethod_range_cases:
  obtains (none) "lookupMethod_range IsExported i ms pkg name = (-1, None)"
    "\<forall>m \<in> set ms. \<not> visible IsExported (funcName m) (funcPkg m) pkg name"
  | (some) j m where "lookupMethod_range IsExported i ms pkg name = (j, Some m)"
    "m \<in> set ms" "visible IsExported (funcName m) (funcPkg m) pkg name"
proof (cases "lookupMethod_range IsExported i ms pkg name")
  case (Pair j r)
  show ?thesis
  proof (cases r)
    case None
    with Pair lookupMethod_range_None[of IsExported i ms pkg name j] none show ?thesis by simp
  next
    case (Some m)
    with Pair lookupMethod_range_Some[of IsExported i ms pkg name j m] some[of j m] show ?thesis
      by (metis nth_mem)
  qed
qed

lemma scanned_refl: "scanned IsExported pkg name s (Next s)"
  by (simp add: scanned_def)

lemma scanned_trans:
  "scanned IsExported pkg name s (Next s1) \<Longrightarrow> scanned IsExported pkg name s1 fl \<Longrightarrow> scanned IsExported pkg name s fl"
  by (cases fl) (auto simp: scanned_def)

lemma scanned_upd_next: "scanned IsExported pkg name s (Next (s\<lparr>v_next := n\<rparr>))"
  by (simp add: scanned_def)

lemma scanned_potentialMatch:
  "objVisible IsExported found pkg name \<Longrightarrow> scanned IsExported pkg name s (potentialMatch e i found s)"
  by (auto simp: scanned_def potentialMatch_def Let_def concat_index_def)

lemma scanned_rangeFields: "scanned IsExported pkg name s (rangeFields IsExported pkg name e i fs s)"
proof (induction fs arbitrary: i s)
  case Nil
  show ?case by (simp add: scanned_refl)
next
  case (Cons f fs)
  show ?case
  proof (cases "isMatch IsExported f pkg name")
    case True
    then have vis: "objVisible IsExported (FieldObj f) pkg name" by (simp add: isMatch_def visible_def)
    show ?thesis
    proof (cases "potentialMatch e i (FieldObj f) s")
      case (Next s')
      with scanned_potentialMatch[OF vis, of s e i] have "scanned IsExported pkg name s (Next s')" by simp
      then have "scanned IsExported pkg name s (rangeFields IsExported pkg name e (i + 1) fs s')"
        by (rule scanned_trans) (rule Cons.IH)
      with True Next show ?thesis by simp
    next
      case (Return s')
      with scanned_potentialMatch[OF vis, of s e i] True show ?thesis by simp
    next
      case (Panic err)
      with scanned_potentialMatch[OF vis, of s e i] True show ?thesis by simp
    qed
  next
    case False
    have step: "scanned IsExported pkg name s (rangeFields IsExported pkg name e (i + 1) fs (s\<lparr>v_next := n\<rparr>))" for n
      by (rule scanned_trans[OF scanned_upd_next]) (rule Cons.IH)
    show ?thesis using False step Cons.IH[where i = "i + 1" and s = s]
      by (auto split: prod.splits Type.splits)
  qed
qed


lemma lookupMethod_no_panic:
  "name \<noteq> ''_'' \<Longrightarrow> lookupMethod IsExported ms pkg name = Inr (lookupMethod_range IsExported 0 ms pkg name)"
  by (simp add: lookupMethod_def)

lemma lookupMethod_panic: "lookupMethod IsExported ms pkg ''_'' = Inl AssertionFailed"
  by (simp add: lookupMethod_def)

lemma scanned_lookup:
  assumes none: "lookupMethod_range IsExported 0 ms pkg name = (-1, None) \<Longrightarrow> scanned IsExported pkg name s (k s)"
  shows "scanned IsExported pkg name s
     (case lookupMethod IsExported ms pkg name of
        Inl err \<Rightarrow> Panic err
      | Inr (i, Some m) \<Rightarrow> potentialMatch e i (FuncObj m) s
      | Inr (i, None) \<Rightarrow> k s)"
proof (cases "name = ''_''")
  case True
  then show ?thesis by (simp add: lookupMethod_def scanned_def)
next
  case False
  show ?thesis
  proof (cases rule: lookupMethod_range_cases[of IsExported 0 ms pkg name])
    case none
    then show ?thesis using False assms by (simp add: lookupMethod_def)
  next
    case (some j m)
    then have "objVisible IsExported (FuncObj m) pkg name" by simp
    then show ?thesis using False some(1) scanned_potentialMatch[of IsExported "FuncObj m" pkg name s e j]
      by (simp add: lookupMethod_def)
  qed
qed

lemma scanned_switchTyp: "scanned IsExported pkg name s (switchTyp IsExported pkg name e s)"
proof (cases "v_typ s")
  case (Struct fs)
  then show ?thesis by (simp add: switchTyp_def scanned_rangeFields)
next
  case (Interface ms)
  have "scanned IsExported pkg name s
     (case lookupMethod IsExported ms pkg name of
        Inl err \<Rightarrow> Panic err
      | Inr (i, Some m) \<Rightarrow> potentialMatch e i (FuncObj m) s
      | Inr (i, None) \<Rightarrow> Next s)"
    by (rule scanned_lookup) (rule scanned_refl)
  with Interface show ?thesis by (simp add: switchTyp_def)
qed (simp_all add: switchTyp_def scanned_refl)

lemma scanned_lookupEntry: "scanned IsExported pkg name s (lookupEntry IsExported G pkg name e s)"
proof (cases "e_typ e")
  case None
  then show ?thesis by (simp add: lookupEntry_def scanned_switchTyp)
next
  case (Some t)
  show ?thesis
  proof (cases "t \<in> v_seen s")
    case True
    with Some show ?thesis by (simp add: lookupEntry_def scanned_refl)
  next
    case False
    let ?s1 = "s\<lparr>v_seen := insert t (v_seen s)\<rparr>"
    have 1: "scanned IsExported pkg name s (Next ?s1)" by (auto simp: scanned_def)
    have "scanned IsExported pkg name ?s1
     (case lookupMethod IsExported (methods (G t)) pkg name of
        Inl err \<Rightarrow> Panic err
      | Inr (i, Some m) \<Rightarrow> potentialMatch e i (FuncObj m) ?s1
      | Inr (i, None) \<Rightarrow> switchTyp IsExported pkg name e (?s1\<lparr>v_typ := underlying (G t)\<rparr>))"
    proof (rule scanned_lookup)
      have "scanned IsExported pkg name ?s1 (Next (?s1\<lparr>v_typ := underlying (G t)\<rparr>))"
        by (simp add: scanned_def)
      then show "scanned IsExported pkg name ?s1 (switchTyp IsExported pkg name e (?s1\<lparr>v_typ := underlying (G t)\<rparr>))"
        by (rule scanned_trans) (rule scanned_switchTyp)
    qed
    with 1 have "scanned IsExported pkg name s
     (case lookupMethod IsExported (methods (G t)) pkg name of
        Inl err \<Rightarrow> Panic err
      | Inr (i, Some m) \<Rightarrow> potentialMatch e i (FuncObj m) ?s1
      | Inr (i, None) \<Rightarrow> switchTyp IsExported pkg name e (?s1\<lparr>v_typ := underlying (G t)\<rparr>))"
      by (rule scanned_trans)
    with Some False show ?thesis by (simp add: lookupEntry_def Let_def)
  qed
qed

lemma scanned_rangeCurrent: "scanned IsExported pkg name s (rangeCurrent IsExported G pkg name es s)"
proof (induction es arbitrary: s)
  case Nil
  show ?case by (simp add: scanned_refl)
next
  case (Cons e es)
  show ?case
  proof (cases "lookupEntry IsExported G pkg name e s")
    case (Next s')
    with scanned_lookupEntry[of IsExported pkg name s G e] have "scanned IsExported pkg name s (Next s')" by simp
    then have "scanned IsExported pkg name s (rangeCurrent IsExported G pkg name es s')"
      by (rule scanned_trans) (rule Cons.IH)
    with Next show ?thesis by simp
  next
    case (Return s')
    with scanned_lookupEntry[of IsExported pkg name s G e] show ?thesis by simp
  next
    case (Panic err)
    with scanned_lookupEntry[of IsExported pkg name s G e] show ?thesis by simp
  qed
qed

subsection \<open>The search, depth by depth\<close>

lemma searchDepth_lastScan:
  "lastScan IsExported G pkg name current s = Some r \<Longrightarrow> searchDepth IsExported G pkg name current s = Some r"
  by (subst searchDepth.simps) (auto simp: lastScan_def split: flow.splits if_splits)

lemma searchDepth_levelAt:
  "levelAt IsExported G pkg name d current s = Some (cur, s') \<Longrightarrow>
   searchDepth IsExported G pkg name current s = searchDepth IsExported G pkg name cur s'"
proof (induction d arbitrary: current s)
  case 0
  then show ?case by simp
next
  case (Suc d)
  from Suc.prems obtain s1 where ne: "current \<noteq> []"
    and scan: "rangeCurrent IsExported G pkg name current (s\<lparr>v_next := []\<rparr>) = Next s1"
    and obj: "v_obj s1 = None"
    and rest: "levelAt IsExported G pkg name d (consolidateMultiples (v_next s1)) s1 = Some (cur, s')"
    by (auto split: if_splits flow.splits)
  have "searchDepth IsExported G pkg name current s
      = searchDepth IsExported G pkg name (consolidateMultiples (v_next s1)) s1"
    by (subst searchDepth.simps) (simp add: ne scan obj)
  also have "\<dots> = searchDepth IsExported G pkg name cur s'" using rest by (rule Suc.IH)
  finally show ?case .
qed

lemma searchDepth_decompose:
  assumes ret: "searchDepth IsExported G pkg name current s = Some r"
  shows "\<exists>d cur s'. levelAt IsExported G pkg name d current s = Some (cur, s') \<and> lastScan IsExported G pkg name cur s' = Some r"
proof -
  let ?P = "\<lambda>IsExported G pkg name current s r.
     \<exists>d cur s'. levelAt IsExported G pkg name d current s = Some (cur, s') \<and> lastScan IsExported G pkg name cur s' = Some r"
  show ?thesis
  proof (rule searchDepth.raw_induct[where P = ?P, OF _ ret])
    fix f :: "(string \<Rightarrow> bool) \<Rightarrow> 'a TypeGraph \<Rightarrow> Package \<Rightarrow> string \<Rightarrow> 'a embeddedType list \<Rightarrow> 'a vars
        \<Rightarrow> (error + 'a lookupResult) option"
    fix IsExported G pkg name current s r
    assume IH: "\<And>IsExported G pkg name current s r.
        f IsExported G pkg name current s = Some r \<Longrightarrow> ?P IsExported G pkg name current s r"
      and body: "(if current \<noteq> [] then
        (case rangeCurrent IsExported G pkg name current (s\<lparr>v_next := []\<rparr>) of
           Panic err \<Rightarrow> Some (Inl err)
         | Return s' \<Rightarrow> Some (Inr (v_obj s', v_index s', v_indirect s'))
         | Next s' \<Rightarrow>
             if v_obj s' \<noteq> None then Some (Inr (v_obj s', v_index s', v_indirect s'))
             else f IsExported G pkg name (consolidateMultiples (v_next s')) s')
      else Some (Inr (v_obj s, [], False))) = Some r"
    show "?P IsExported G pkg name current s r"
    proof (cases "lastScan IsExported G pkg name current s")
      case (Some r')
      with body have "r' = r" by (auto simp: lastScan_def split: if_splits flow.splits)
      with Some have "levelAt IsExported G pkg name 0 current s = Some (current, s) \<and> lastScan IsExported G pkg name current s = Some r"
        by simp
      then show ?thesis by blast
    next
      case None
      then obtain s1 where ne: "current \<noteq> []"
        and scan: "rangeCurrent IsExported G pkg name current (s\<lparr>v_next := []\<rparr>) = Next s1"
        and obj: "v_obj s1 = None"
        by (auto simp: lastScan_def split: if_splits flow.splits)
      with body have "f IsExported G pkg name (consolidateMultiples (v_next s1)) s1 = Some r" by simp
      from IH[OF this] obtain d cur s' where
        "levelAt IsExported G pkg name d (consolidateMultiples (v_next s1)) s1 = Some (cur, s')"
        "lastScan IsExported G pkg name cur s' = Some r" by blast
      then have "levelAt IsExported G pkg name (Suc d) current s = Some (cur, s') \<and> lastScan IsExported G pkg name cur s' = Some r"
        using ne scan obj by simp
      then show ?thesis by blast
    qed
  qed
qed

lemma headVars_levelAt:
  "levelAt IsExported G pkg name d current s = Some (cur, s') \<Longrightarrow> headVars s \<Longrightarrow> headVars s'"
proof (induction d arbitrary: current s)
  case 0
  then show ?case by simp
next
  case (Suc d)
  from Suc.prems(1) obtain s1 where ne: "current \<noteq> []"
    and scan: "rangeCurrent IsExported G pkg name current (s\<lparr>v_next := []\<rparr>) = Next s1"
    and obj: "v_obj s1 = None"
    and rest: "levelAt IsExported G pkg name d (consolidateMultiples (v_next s1)) s1 = Some (cur, s')"
    by (auto split: if_splits flow.splits)
  from scanned_rangeCurrent[of IsExported pkg name "s\<lparr>v_next := []\<rparr>" G current] scan obj Suc.prems(2)
  have "headVars s1" by (auto simp: scanned_def headVars_def)
  with rest show ?case by (rule Suc.IH)
qed

lemma lastScan_cases:
  assumes "lastScan IsExported G pkg name cur s = Some r" and "headVars s"
  obtains (panic) "name = ''_''"
  | (notfound) "r = Inr (None, [], False)"
  | (ambiguous) idx ind where "r = Inr (None, idx, ind)" "idx \<noteq> []"
  | (found) obj idx ind where "r = Inr (Some obj, idx, ind)" "objVisible IsExported obj pkg name" "idx \<noteq> []"
proof (cases "cur = []")
  case True
  with assms notfound show ?thesis by (simp add: lastScan_def headVars_def)
next
  case False
  note sc = scanned_rangeCurrent[of IsExported pkg name "s\<lparr>v_next := []\<rparr>" G cur]
  show ?thesis
  proof (cases "rangeCurrent IsExported G pkg name cur (s\<lparr>v_next := []\<rparr>)")
    case (Next s')
    with assms False have "v_obj s' \<noteq> None" and r: "r = Inr (v_obj s', v_index s', v_indirect s')"
      by (auto simp: lastScan_def split: if_splits)
    with sc Next assms(2) found show ?thesis by (auto simp: scanned_def headVars_def)
  next
    case (Return s')
    with assms False have "r = Inr (v_obj s', v_index s', v_indirect s')"
      by (auto simp: lastScan_def)
    with sc Return ambiguous show ?thesis by (auto simp: scanned_def)
  next
    case (Panic err)
    with sc panic show ?thesis by (auto simp: scanned_def)
  qed
qed

lemma headVars_initial: "headVars (initialVars typ0)"
  by (simp add: headVars_def initialVars_def)

lemma LookupFieldOrMethod_cases:
  assumes "LookupFieldOrMethod IsExported G typ0 pkg name = Some r"
  obtains (notfound) "r = Inr (None, [], False)"
  | (ambiguous) idx ind where "r = Inr (None, idx, ind)" "idx \<noteq> []"
  | (found) obj idx ind where "r = Inr (Some obj, idx, ind)" "objVisible IsExported obj pkg name" "idx \<noteq> []"
proof (cases "name = ''_''")
  case True
  with assms notfound show ?thesis by (simp add: LookupFieldOrMethod_def)
next
  case False
  with assms have "searchDepth IsExported G pkg name (initialCurrent typ0) (initialVars typ0) = Some r"
    by (simp add: LookupFieldOrMethod_def)
  from searchDepth_decompose[OF this] obtain d cur s' where
    lv: "levelAt IsExported G pkg name d (initialCurrent typ0) (initialVars typ0) = Some (cur, s')"
    and ls: "lastScan IsExported G pkg name cur s' = Some r" by blast
  from headVars_levelAt[OF lv headVars_initial] have "headVars s'" .
  with ls show ?thesis
    using False notfound ambiguous found by (cases rule: lastScan_cases) auto
qed


subsection \<open>The visibility rule\<close>

text \<open>
  \<^verbatim>\<open>fieldIndex\<close>, the scan of struct fields that is among the sources, finds a field
  exactly if some field passes the test that \<open>isMatch\<close> is modelled to make.
\<close>

lemma fieldIndex_range_isMatch:
  "0 \<le> i \<Longrightarrow> 0 \<le> fieldIndex_range IsExported i fs pkg name \<longleftrightarrow> (\<exists>f \<in> set fs. isMatch IsExported f pkg name)"
  by (induction fs arbitrary: i) (auto simp: isMatch_def)

lemma fieldIndex_isMatch:
  "0 \<le> fieldIndex IsExported fs pkg name \<longleftrightarrow> name \<noteq> ''_'' \<and> (\<exists>f \<in> set fs. isMatch IsExported f pkg name)"
  using fieldIndex_range_isMatch[of 0 IsExported fs pkg name] by (simp add: fieldIndex_def)

text \<open>
  C6: at every comparison of the search a member matches the selector exactly by the
  visibility rule. \<^verbatim>\<open>lookupMethod\<close>, which scans the declared methods of a named type and
  the method set of an interface, returns the first method of the list that the rule
  accepts, with its index, and returns no method only if the rule accepts none;
  \<^verbatim>\<open>isMatch\<close>, which tests a struct field, holds exactly if the rule accepts the field. A
  member that is not exported and belongs to another package matches nowhere, and
  whatever \<^verbatim>\<open>LookupFieldOrMethod\<close> returns is accepted by the rule. Which names are exported
  is decided by \<^verbatim>\<open>ast.IsExported\<close>, the parameter \<open>IsExported\<close>: the statement holds for it
  whatever it accepts.
\<close>

theorem visibility_rule:
  "(lookupMethod IsExported ms pkg name = Inr (i, Some m) \<longrightarrow>
      0 \<le> i \<and> nat i < length ms \<and> ms ! nat i = m \<and>
      visible IsExported (funcName m) (funcPkg m) pkg name \<and>
      (\<forall>k < nat i. \<not> visible IsExported (funcName (ms ! k)) (funcPkg (ms ! k)) pkg name)) \<and>
   (lookupMethod IsExported ms pkg name = Inr (i, None) \<longrightarrow>
      i = -1 \<and> (\<forall>m' \<in> set ms. \<not> visible IsExported (funcName m') (funcPkg m') pkg name)) \<and>
   (name \<noteq> ''_'' \<longrightarrow> (\<exists>m' \<in> set ms. visible IsExported (funcName m') (funcPkg m') pkg name) \<longrightarrow>
      (\<exists>j m'. lookupMethod IsExported ms pkg name = Inr (j, Some m'))) \<and>
   (isMatch IsExported f pkg name \<longleftrightarrow> visible IsExported (fieldName f) (fieldPkg f) pkg name) \<and>
   (\<not> IsExported name \<and> path (fieldPkg f) \<noteq> path pkg \<longrightarrow> \<not> isMatch IsExported f pkg name) \<and>
   (\<not> IsExported name \<and> path (funcPkg m) \<noteq> path pkg \<longrightarrow>
      lookupMethod IsExported ms pkg name \<noteq> Inr (i, Some m)) \<and>
   (LookupFieldOrMethod IsExported G typ0 pkg name = Some (Inr (Some obj, idx, ind)) \<longrightarrow>
      objVisible IsExported obj pkg name)"
proof -
  have 1: "0 \<le> i \<and> nat i < length ms \<and> ms ! nat i = m \<and>
      visible IsExported (funcName m) (funcPkg m) pkg name \<and>
      (\<forall>k < nat i. \<not> visible IsExported (funcName (ms ! k)) (funcPkg (ms ! k)) pkg name)"
    if "lookupMethod IsExported ms pkg name = Inr (i, Some m)"
  proof -
    from that have "lookupMethod_range IsExported 0 ms pkg name = (i, Some m)"
      by (auto simp: lookupMethod_def split: if_splits)
    from lookupMethod_range_Some[OF this] show ?thesis by simp
  qed
  have 2: "i = -1 \<and> (\<forall>m' \<in> set ms. \<not> visible IsExported (funcName m') (funcPkg m') pkg name)"
    if "lookupMethod IsExported ms pkg name = Inr (i, None)"
  proof -
    from that have "lookupMethod_range IsExported 0 ms pkg name = (i, None)"
      by (auto simp: lookupMethod_def split: if_splits)
    then show ?thesis by (simp add: lookupMethod_range_None)
  qed
  have 3: "\<exists>j m'. lookupMethod IsExported ms pkg name = Inr (j, Some m')"
    if "name \<noteq> ''_''" and "\<exists>m' \<in> set ms. visible IsExported (funcName m') (funcPkg m') pkg name"
    using that by (cases rule: lookupMethod_range_cases[of IsExported 0 ms pkg name])
      (auto simp: lookupMethod_def)
  have 4: "isMatch IsExported f pkg name \<longleftrightarrow> visible IsExported (fieldName f) (fieldPkg f) pkg name"
    by (simp add: isMatch_def visible_def)
  have 5: "\<not> isMatch IsExported f pkg name" if "\<not> IsExported name \<and> path (fieldPkg f) \<noteq> path pkg"
    using that by (simp add: isMatch_def)
  have 6: "lookupMethod IsExported ms pkg name \<noteq> Inr (i, Some m)"
    if "\<not> IsExported name \<and> path (funcPkg m) \<noteq> path pkg"
    using that 1 by (auto simp: visible_def)
  have 7: "objVisible IsExported obj pkg name"
    if "LookupFieldOrMethod IsExported G typ0 pkg name = Some (Inr (Some obj, idx, ind))"
    using that by (rule LookupFieldOrMethod_cases) auto
  from 1 2 3 4 5 6 7 show ?thesis by blast
qed

text \<open>
  Package \<open>p\<close> asks for \<open>m\<close> in a list that declares \<open>m\<close> for package \<open>q\<close> and then for \<open>p\<close>: the
  first is not visible, the second is found at index 1. It asks for the exported \<open>M\<close> in such
  a list: the method of \<open>q\<close> is visible and is found at index 0. So is a method of \<open>q\<close>
  whose name begins with the two bytes of an upper-case A with diaeresis, under a predicate
  that takes such a name for exported.
\<close>

theorem visibility_rule_witness:
  "lookupMethod exExported [Func ''m'' pkgQ intT, Func ''m'' pkgP intT] pkgP ''m''
     = Inr (1, Some (Func ''m'' pkgP intT)) \<and>
   lookupMethod exExported [Func ''M'' pkgQ intT, Func ''M'' pkgP intT] pkgP ''M''
     = Inr (0, Some (Func ''M'' pkgQ intT)) \<and>
   lookupMethod (\<lambda>name. take 2 name = [CHR 0xC3, CHR 0x84])
       [Func (CHR 0xC3 # CHR 0x84 # ''rger'') pkgQ intT] pkgP (CHR 0xC3 # CHR 0x84 # ''rger'')
     = Inr (0, Some (Func (CHR 0xC3 # CHR 0x84 # ''rger'') pkgQ intT)) \<and>
   visible exExported ''m'' pkgP pkgP ''m'' \<and> \<not> visible exExported ''m'' pkgQ pkgP ''m'' \<and>
   visible exExported ''M'' pkgQ pkgP ''M'' \<and>
   isMatch exExported (Field ''X'' pkgQ intT False) pkgP ''X'' \<and>
   \<not> isMatch exExported (Field ''x'' pkgQ intT False) pkgP ''x''"
  using
    visibility_rule[of exExported "[Func ''m'' pkgQ intT, Func ''m'' pkgP (intT :: tname Type)]"
      pkgP "''m''" 1 "Func ''m'' pkgP intT" "Field ''x'' pkgQ intT False"]
    visibility_rule[of exExported "[Func ''M'' pkgQ intT, Func ''M'' pkgP (intT :: tname Type)]"
      pkgP "''M''" 0 "Func ''M'' pkgQ intT" "Field ''X'' pkgQ intT False"]
  by (simp add: lookupMethod_def isMatch_def exExported_def visible_def pkgP_def pkgQ_def)

subsection \<open>Not found\<close>

text \<open>
  C9: whenever \<^verbatim>\<open>LookupFieldOrMethod\<close> returns a nil object and a nil index, the third
  result \<^verbatim>\<open>indirect\<close> is false.
\<close>

theorem not_found_not_indirect:
  "LookupFieldOrMethod IsExported G typ0 pkg name = Some (Inr (None, [], ind)) \<Longrightarrow> ind = False"
  by (erule LookupFieldOrMethod_cases) auto

text \<open>
  The search for \<open>x\<close> from \<^verbatim>\<open>*A\<close> goes through an embedded pointer and finds nothing.
\<close>

theorem not_found_not_indirect_witness:
  "\<forall>ind. LookupFieldOrMethod exExported exGraph (Pointer (Named T_A)) pkgP ''x'' = Some (Inr (None, [], ind))
     \<longleftrightarrow> \<not> ind"
proof (intro allI iffI)
  fix ind
  assume "LookupFieldOrMethod exExported exGraph (Pointer (Named T_A)) pkgP ''x'' = Some (Inr (None, [], ind))"
  then have "ind = False" by (rule not_found_not_indirect)
  then show "\<not> ind" by simp
next
  fix ind
  have "LookupFieldOrMethod exExported exGraph (Pointer (Named T_A)) pkgP ''x'' = Some (Inr (None, [], False))"
    by code_simp
  moreover assume "\<not> ind"
  ultimately show "LookupFieldOrMethod exExported exGraph (Pointer (Named T_A)) pkgP ''x''
      = Some (Inr (None, [], ind))" by simp
qed

subsection \<open>What a scan does to the set of seen types and to the next frontier\<close>

lemma potentialMatch_Next:
  "potentialMatch e i found s = Next s' \<Longrightarrow>
     s' = s\<lparr>v_index := concat_index (e_index e) i, v_obj := Some found, v_indirect := e_indirect e\<rparr>
     \<and> v_obj s = None \<and> \<not> e_multiples e"
  by (auto simp: potentialMatch_def Let_def split: if_splits)

lemma rangeFields_keeps:
  "rangeFields IsExported pkg name e i fs s = Next s' \<Longrightarrow>
     v_seen s' = v_seen s \<and> v_typ s' = v_typ s \<and> (allNamed (v_next s) \<longrightarrow> allNamed (v_next s'))"
proof (induction fs arbitrary: i s)
  case Nil
  then show ?case by simp
next
  case (Cons f fs)
  show ?case
  proof (cases "isMatch IsExported f pkg name")
    case True
    with Cons.prems obtain s1 where pm: "potentialMatch e i (FieldObj f) s = Next s1"
      and rest: "rangeFields IsExported pkg name e (i + 1) fs s1 = Next s'"
      by (auto split: flow.splits)
    from potentialMatch_Next[OF pm] have "v_seen s1 = v_seen s" "v_typ s1 = v_typ s" "v_next s1 = v_next s"
      by auto
    with Cons.IH[OF rest] show ?thesis by simp
  next
    case False
    show ?thesis
    proof (cases "v_obj s = None \<and> anonymous f")
      case emb: True
      obtain b isPtr where d: "deref (fieldTyp f) = (b, isPtr)" by (cases "deref (fieldTyp f)")
      show ?thesis
      proof (cases b)
        case (Named t)
        let ?s1 = "s\<lparr>v_next := v_next s @
                  [\<lparr>e_typ = Some t, e_index = concat_index (e_index e) i,
                    e_indirect = (e_indirect e \<or> isPtr), e_multiples = e_multiples e\<rparr>]\<rparr>"
        from Cons.prems False emb d Named have "rangeFields IsExported pkg name e (i + 1) fs ?s1 = Next s'"
          by simp
        from Cons.IH[OF this] show ?thesis by (auto simp: allNamed_def)
      qed (use Cons.prems False emb d Cons.IH[of "i + 1" s] in auto)
    next
      case False
      with Cons.prems \<open>\<not> isMatch IsExported f pkg name\<close> have "rangeFields IsExported pkg name e (i + 1) fs s = Next s'"
        by auto
      from Cons.IH[OF this] show ?thesis .
    qed
  qed
qed

lemma lookup_keeps:
  assumes ret: "(case lookupMethod IsExported ms pkg name of
        Inl err \<Rightarrow> Panic err
      | Inr (i, Some m) \<Rightarrow> potentialMatch e i (FuncObj m) s
      | Inr (i, None) \<Rightarrow> k) = Next s'"
    and none: "k = Next s' \<Longrightarrow> v_seen s' = v_seen s \<and> v_next s' = v_next s \<or> Q"
  shows "v_seen s' = v_seen s \<and> v_next s' = v_next s \<or> Q"
proof (cases "lookupMethod IsExported ms pkg name")
  case (Inl err)
  with ret show ?thesis by simp
next
  case (Inr r)
  obtain i mo where r: "r = (i, mo)" by (cases r)
  show ?thesis
  proof (cases mo)
    case None
    with ret Inr r none show ?thesis by simp
  next
    case (Some m)
    with ret Inr r have "potentialMatch e i (FuncObj m) s = Next s'" by simp
    from potentialMatch_Next[OF this] show ?thesis by simp
  qed
qed

lemma switchTyp_keeps:
  assumes "switchTyp IsExported pkg name e s = Next s'"
  shows "v_seen s' = v_seen s \<and> (allNamed (v_next s) \<longrightarrow> allNamed (v_next s'))"
proof (cases "v_typ s")
  case (Struct fs)
  with assms have "rangeFields IsExported pkg name e 0 fs s = Next s'" by (simp add: switchTyp_def)
  from rangeFields_keeps[OF this] show ?thesis by simp
next
  case (Interface ms)
  with assms have "(case lookupMethod IsExported ms pkg name of
        Inl err \<Rightarrow> Panic err
      | Inr (i, Some m) \<Rightarrow> potentialMatch e i (FuncObj m) s
      | Inr (i, None) \<Rightarrow> Next s) = Next s'" by (simp add: switchTyp_def)
  then have "v_seen s' = v_seen s \<and> v_next s' = v_next s \<or> False"
    by (rule lookup_keeps) simp
  then show ?thesis by simp
qed (use assms in \<open>simp_all add: switchTyp_def\<close>)

lemma lookupEntry_skip: "e_typ e = Some t \<Longrightarrow> t \<in> v_seen s \<Longrightarrow> lookupEntry IsExported G pkg name e s = Next s"
  by (simp add: lookupEntry_def)

lemma lookupEntry_fresh:
  assumes ret: "lookupEntry IsExported G pkg name e s = Next s'" and t: "e_typ e = Some t" and fresh: "t \<notin> v_seen s"
  shows "v_seen s' = insert t (v_seen s) \<and> (allNamed (v_next s) \<longrightarrow> allNamed (v_next s'))"
proof -
  let ?s1 = "s\<lparr>v_seen := insert t (v_seen s)\<rparr>"
  let ?k = "switchTyp IsExported pkg name e (?s1\<lparr>v_typ := underlying (G t)\<rparr>)"
  from ret t fresh have "(case lookupMethod IsExported (methods (G t)) pkg name of
        Inl err \<Rightarrow> Panic err
      | Inr (i, Some m) \<Rightarrow> potentialMatch e i (FuncObj m) ?s1
      | Inr (i, None) \<Rightarrow> ?k) = Next s'"
    by (simp add: lookupEntry_def Let_def)
  then have "v_seen s' = v_seen ?s1 \<and> v_next s' = v_next ?s1
     \<or> (v_seen s' = insert t (v_seen s) \<and> (allNamed (v_next s) \<longrightarrow> allNamed (v_next s')))"
  proof (rule lookup_keeps)
    assume "?k = Next s'"
    from switchTyp_keeps[OF this]
    show "v_seen s' = v_seen ?s1 \<and> v_next s' = v_next ?s1
     \<or> (v_seen s' = insert t (v_seen s) \<and> (allNamed (v_next s) \<longrightarrow> allNamed (v_next s')))"
      by simp
  qed
  then show ?thesis by auto
qed

lemma lookupEntry_allNamed:
  assumes ret: "lookupEntry IsExported G pkg name e s = Next s'" and nx: "allNamed (v_next s)"
  shows "allNamed (v_next s')"
proof (cases "e_typ e")
  case None
  with ret have "switchTyp IsExported pkg name e s = Next s'" by (simp add: lookupEntry_def)
  from switchTyp_keeps[OF this] nx show ?thesis by simp
next
  case (Some t)
  show ?thesis
  proof (cases "t \<in> v_seen s")
    case True
    with ret Some nx show ?thesis by (simp add: lookupEntry_skip)
  next
    case False
    from lookupEntry_fresh[OF ret Some False] nx show ?thesis by simp
  qed
qed

lemma rangeCurrent_allNamed:
  "rangeCurrent IsExported G pkg name es s = Next s' \<Longrightarrow> allNamed (v_next s) \<Longrightarrow> allNamed (v_next s')"
proof (induction es arbitrary: s)
  case Nil
  then show ?case by simp
next
  case (Cons e es)
  from Cons.prems(1) obtain s1 where 1: "lookupEntry IsExported G pkg name e s = Next s1"
    and 2: "rangeCurrent IsExported G pkg name es s1 = Next s'"
    by (auto split: flow.splits)
  from lookupEntry_allNamed[OF 1 Cons.prems(2)] have "allNamed (v_next s1)" .
  with 2 show ?case by (rule Cons.IH)
qed

lemma Next_seen_mono: "scanned IsExported pkg name s (Next s') \<Longrightarrow> v_seen s \<subseteq> v_seen s'"
  by (simp add: scanned_def)

lemma rangeCurrent_stuck:
  "rangeCurrent IsExported G pkg name es s = Next s' \<Longrightarrow> allNamed es \<Longrightarrow> v_seen s' = v_seen s \<Longrightarrow> s' = s"
proof (induction es arbitrary: s)
  case Nil
  then show ?case by simp
next
  case (Cons e es)
  from Cons.prems(1) obtain s1 where 1: "lookupEntry IsExported G pkg name e s = Next s1"
    and 2: "rangeCurrent IsExported G pkg name es s1 = Next s'"
    by (auto split: flow.splits)
  from Cons.prems(2) obtain t where t: "e_typ e = Some t" and es: "allNamed es"
    by (auto simp: allNamed_def)
  have m1: "v_seen s \<subseteq> v_seen s1"
    using scanned_lookupEntry[of IsExported pkg name s G e] 1 by (simp add: scanned_def)
  have m2: "v_seen s1 \<subseteq> v_seen s'"
    using scanned_rangeCurrent[of IsExported pkg name s1 G es] 2 by (simp add: scanned_def)
  from m1 m2 Cons.prems(3) have eq: "v_seen s1 = v_seen s" "v_seen s' = v_seen s1" by auto
  have "s1 = s"
  proof (cases "t \<in> v_seen s")
    case True
    with 1 t show ?thesis by (simp add: lookupEntry_skip)
  next
    case False
    from lookupEntry_fresh[OF 1 t False] eq(1) False show ?thesis by auto
  qed
  with Cons.IH[OF 2 es eq(2)] show ?case by simp
qed

subsection \<open>consolidateMultiples\<close>

lemma flagged_refl: "flagged e e"
  by (simp add: flagged_def)

lemma flagged_multiples: "flagged e e' \<Longrightarrow> flagged e (e'\<lparr>e_multiples := True\<rparr>)"
  by (simp add: flagged_def)

lemma consolidated_init: "consolidated l 0 (l, 0, Map.empty)"
  by (simp add: consolidated_def)

lemma consolidated_step:
  assumes inv: "consolidated l k st" and k: "k < length l"
  shows "consolidated l (Suc k) (consolidateStep k st)"
proof -
  obtain list n prev where st: "st = (list, n, prev)" by (cases st)
  from inv st have len: "length list = length l" and nk: "n \<le> k"
    and rest: "\<forall>j. k \<le> j \<and> j < length l \<longrightarrow> list ! j = l ! j"
    and prev1: "\<forall>ty i. prev ty = Some i \<longrightarrow> i < n \<and> e_typ (list ! i) = ty"
    and prev2: "\<forall>i < n. prev (e_typ (list ! i)) = Some i"
    and orig: "\<forall>i < n. \<exists>e \<in> set l. flagged e (list ! i)"
    by (auto simp: consolidated_def)
  let ?e = "list ! k"
  have ek: "?e = l ! k" using rest k by simp
  show ?thesis
  proof (cases "prev (e_typ ?e)")
    case (Some i)
    with prev1 have i: "i < n" "e_typ (list ! i) = e_typ ?e" by auto
    let ?list = "list[i := (list ! i)\<lparr>e_multiples := True\<rparr>]"
    have step: "consolidateStep k st = (?list, n, prev)"
      using st Some by (simp add: consolidateStep_def Let_def)
    have ilen: "i < length list" using i(1) nk k len by simp
    have typ_same: "e_typ (?list ! j) = e_typ (list ! j)" for j
      using ilen by (cases "j = i") simp_all
    have 1: "\<forall>j. Suc k \<le> j \<and> j < length l \<longrightarrow> ?list ! j = l ! j"
      using rest i(1) nk by auto
    have 2: "\<forall>i' < n. \<exists>e \<in> set l. flagged e (?list ! i')"
    proof (intro allI impI)
      fix i' assume i': "i' < n"
      with orig obtain e where e: "e \<in> set l" "flagged e (list ! i')" by blast
      show "\<exists>e \<in> set l. flagged e (?list ! i')"
      proof (cases "i' = i")
        case True
        with e ilen show ?thesis by (auto intro: flagged_multiples)
      next
        case False
        with e show ?thesis by auto
      qed
    qed
    show ?thesis unfolding step consolidated_def
      using len nk 1 2 prev1 prev2 by (simp add: typ_same)
  next
    case None
    let ?list = "list[n := ?e]"
    let ?prev = "prev(e_typ ?e \<mapsto> n)"
    have step: "consolidateStep k st = (?list, n + 1, ?prev)"
      using st None by (simp add: consolidateStep_def Let_def)
    have nlen: "n < length list" using nk k len by simp
    have 1: "\<forall>j. Suc k \<le> j \<and> j < length l \<longrightarrow> ?list ! j = l ! j"
      using rest nk by auto
    have 2: "\<forall>ty i. ?prev ty = Some i \<longrightarrow> i < n + 1 \<and> e_typ (?list ! i) = ty"
    proof (intro allI impI)
      fix ty i assume p: "?prev ty = Some i"
      show "i < n + 1 \<and> e_typ (?list ! i) = ty"
      proof (cases "ty = e_typ ?e")
        case True
        with p nlen show ?thesis by simp
      next
        case False
        with p prev1 have "i < n" "e_typ (list ! i) = ty" by auto
        then show ?thesis by simp
      qed
    qed
    have 3: "\<forall>i < n + 1. ?prev (e_typ (?list ! i)) = Some i"
    proof (intro allI impI)
      fix i assume i: "i < n + 1"
      show "?prev (e_typ (?list ! i)) = Some i"
      proof (cases "i = n")
        case True
        with nlen show ?thesis by simp
      next
        case False
        with i have lt: "i < n" by simp
        with prev2 have p: "prev (e_typ (list ! i)) = Some i" by simp
        with None have "e_typ (list ! i) \<noteq> e_typ ?e" by auto
        with p lt show ?thesis by simp
      qed
    qed
    have 4: "\<forall>i < n + 1. \<exists>e \<in> set l. flagged e (?list ! i)"
    proof (intro allI impI)
      fix i assume i: "i < n + 1"
      show "\<exists>e \<in> set l. flagged e (?list ! i)"
      proof (cases "i = n")
        case True
        have "l ! k \<in> set l" using k by simp
        with True nlen ek show ?thesis by (auto intro: flagged_refl)
      next
        case False
        with i orig show ?thesis by simp
      qed
    qed
    show ?thesis unfolding step consolidated_def
      using len nk 1 2 3 4 by simp
  qed
qed

lemma consolidated_fold:
  "k \<le> length l \<Longrightarrow> consolidated l k (fold consolidateStep [0..<k] (l, 0, Map.empty))"
proof (induction k)
  case 0
  show ?case by (simp add: consolidated_init)
next
  case (Suc k)
  then have "consolidated l k (fold consolidateStep [0..<k] (l, 0, Map.empty))" by simp
  then have "consolidated l (Suc k) (consolidateStep k (fold consolidateStep [0..<k] (l, 0, Map.empty)))"
    by (rule consolidated_step) (use Suc.prems in simp)
  then show ?case by simp
qed

lemma consolidateMultiples_flagged:
  assumes "e' \<in> set (consolidateMultiples l)"
  shows "\<exists>e \<in> set l. flagged e e'"
proof (cases "length l \<le> 1")
  case True
  with assms show ?thesis by (auto simp: consolidateMultiples_def intro: flagged_refl)
next
  case False
  obtain list n prev where f: "fold consolidateStep [0..<length l] (l, 0, Map.empty) = (list, n, prev)"
    by (cases "fold consolidateStep [0..<length l] (l, 0, Map.empty)")
  from consolidated_fold[of "length l" l] f
  have len: "length list = length l" and n: "n \<le> length l"
    and orig: "\<forall>i < n. \<exists>e \<in> set l. flagged e (list ! i)"
    by (auto simp: consolidated_def)
  from assms False f have "e' \<in> set (take n list)" by (simp add: consolidateMultiples_def)
  then obtain i where "i < n" "e' = list ! i"
    using len n by (auto simp: in_set_conv_nth)
  with orig show ?thesis by auto
qed

lemma consolidateMultiples_distinct:
  assumes "1 < length l"
  shows "distinct (map e_typ (consolidateMultiples l))"
proof -
  obtain list n prev where f: "fold consolidateStep [0..<length l] (l, 0, Map.empty) = (list, n, prev)"
    by (cases "fold consolidateStep [0..<length l] (l, 0, Map.empty)")
  from consolidated_fold[of "length l" l] f
  have len: "length list = length l" and n: "n \<le> length l"
    and prev2: "\<forall>i < n. prev (e_typ (list ! i)) = Some i"
    by (auto simp: consolidated_def)
  have "distinct (map e_typ (take n list))"
    unfolding distinct_conv_nth
  proof (intro allI impI)
    fix i j assume "i < length (map e_typ (take n list))" "j < length (map e_typ (take n list))" "i \<noteq> j"
    then have ij: "i < n" "j < n" "i \<noteq> j" using len n by auto
    with prev2 have "prev (e_typ (list ! i)) = Some i" "prev (e_typ (list ! j)) = Some j" by auto
    with ij(3) have "e_typ (list ! i) \<noteq> e_typ (list ! j)" by auto
    with ij len n show "map e_typ (take n list) ! i \<noteq> map e_typ (take n list) ! j" by simp
  qed
  with assms f show ?thesis by (simp add: consolidateMultiples_def)
qed

lemma consolidateMultiples_Nil: "consolidateMultiples [] = []"
  by (simp add: consolidateMultiples_def)

lemma consolidateMultiples_allNamed: "allNamed l \<Longrightarrow> allNamed (consolidateMultiples l)"
  unfolding allNamed_def using consolidateMultiples_flagged by (fastforce simp: flagged_def)

subsection \<open>Termination\<close>

lemma searchDepth_returns:
  fixes s :: "'h::finite vars"
  shows "\<exists>r. searchDepth IsExported G pkg name current s = Some r"
proof (induction "unseen current s" arbitrary: current s rule: less_induct)
  case less
  show ?case
  proof (cases "lastScan IsExported G pkg name current s")
    case (Some r)
    then show ?thesis by (auto dest: searchDepth_lastScan)
  next
    case None
    let ?s0 = "s\<lparr>v_next := []\<rparr>"
    from None obtain s1 where ne: "current \<noteq> []"
      and scan: "rangeCurrent IsExported G pkg name current ?s0 = Next s1"
      and obj: "v_obj s1 = None"
      by (auto simp: lastScan_def split: if_splits flow.splits)
    let ?cur = "consolidateMultiples (v_next s1)"
    have unroll: "searchDepth IsExported G pkg name current s = searchDepth IsExported G pkg name ?cur s1"
      by (rule searchDepth_levelAt[where d = 1]) (simp add: ne scan obj)
    have named: "allNamed ?cur"
      by (rule consolidateMultiples_allNamed, rule rangeCurrent_allNamed[OF scan])
        (simp add: allNamed_def)
    have mono: "v_seen s \<subseteq> v_seen s1"
      using scanned_rangeCurrent[of IsExported pkg name ?s0 G current] scan by (simp add: scanned_def)
    show ?thesis
    proof (cases "v_seen s1 = v_seen s")
      case True
      show ?thesis
      proof (cases "allNamed current")
        case allN: True
        from rangeCurrent_stuck[OF scan allN] True have "s1 = ?s0" by simp
        then have "?cur = []" by (simp add: consolidateMultiples_Nil)
        then have "lastScan IsExported G pkg name ?cur s1 = Some (Inr (v_obj s1, [], False))"
          by (simp add: lastScan_def)
        from searchDepth_lastScan[OF this] unroll show ?thesis by simp
      next
        case False
        with named True have "unseen ?cur s1 < unseen current s" by (simp add: unseen_def)
        from less.hyps[OF this] unroll show ?thesis by simp
      qed
    next
      case False
      with mono have "UNIV - v_seen s1 \<subset> UNIV - v_seen s" by auto
      then have "card (UNIV - v_seen s1) < card (UNIV - v_seen s)"
        by (intro psubset_card_mono) auto
      with named have "unseen ?cur s1 < unseen current s" by (simp add: unseen_def)
      from less.hyps[OF this] unroll show ?thesis by simp
    qed
  qed
qed


text \<open>
  C3: on every type graph with finitely many named types, cyclic or not, and from every
  type, \<^verbatim>\<open>LookupFieldOrMethod\<close> returns, without a panic: a found member, an ambiguity or
  not found. A named type that is in \<^verbatim>\<open>seen\<close> is skipped by every later entry that
  carries it, so it is expanded at most once.
\<close>

theorem LookupFieldOrMethod_terminates:
  fixes G :: "'h::finite TypeGraph"
  shows "(\<exists>r. LookupFieldOrMethod IsExported G typ0 pkg name = Some (Inr r)) \<and>
         (\<forall>e t s. e_typ e = Some t \<and> t \<in> v_seen s \<longrightarrow> lookupEntry IsExported G pkg name e s = Next s)"
proof
  have "\<exists>r. LookupFieldOrMethod IsExported G typ0 pkg name = Some r"
    using searchDepth_returns[of IsExported G pkg name "initialCurrent typ0" "initialVars typ0"]
    by (simp add: LookupFieldOrMethod_def)
  then obtain r where r: "LookupFieldOrMethod IsExported G typ0 pkg name = Some r" ..
  from r have "\<exists>r'. r = Inr r'"
    by (cases rule: LookupFieldOrMethod_cases) auto
  with r show "\<exists>r. LookupFieldOrMethod IsExported G typ0 pkg name = Some (Inr r)"
    by auto
next
  show "\<forall>e t s. e_typ e = Some t \<and> t \<in> v_seen s \<longrightarrow> lookupEntry IsExported G pkg name e s = Next s"
    by (simp add: lookupEntry_skip)
qed

text \<open>The search for \<open>x\<close> from \<open>A\<close>, which embeds \<open>B\<close>, which embeds \<^verbatim>\<open>*A\<close>, returns not found.\<close>

theorem LookupFieldOrMethod_terminates_witness:
  "\<exists>r. LookupFieldOrMethod exExported exGraph (Named T_A) pkgP ''x'' = Some (Inr r) \<and> r = (None, [], False)"
proof -
  have run: "LookupFieldOrMethod exExported exGraph (Named T_A) pkgP ''x'' = Some (Inr (None, [], False))"
    by code_simp
  from LookupFieldOrMethod_terminates[of exExported exGraph "Named T_A" pkgP "''x''"] run
  show ?thesis by simp
qed

subsection \<open>Matching entries\<close>

lemma Next_keeps_obj:
  "scanned IsExported pkg name s (Next s') \<Longrightarrow> v_obj s \<noteq> None \<Longrightarrow> v_obj s' = v_obj s"
  by (auto simp: scanned_def)

lemma Next_None_obj:
  "scanned IsExported pkg name s (Next s') \<Longrightarrow> v_obj s' = None \<Longrightarrow> v_obj s = None"
  by (auto simp: scanned_def)

lemma rangeFields_no_match:
  "\<forall>f \<in> set fs. \<not> isMatch IsExported f pkg name \<Longrightarrow>
   \<exists>s'. rangeFields IsExported pkg name e i fs s = Next s' \<and> v_obj s' = v_obj s"
proof (induction fs arbitrary: i s)
  case Nil
  show ?case by simp
next
  case (Cons f fs)
  then have nm: "\<not> isMatch IsExported f pkg name" and rest: "\<forall>f \<in> set fs. \<not> isMatch IsExported f pkg name" by auto
  have step: "\<exists>s'. rangeFields IsExported pkg name e (i + 1) fs (s\<lparr>v_next := n\<rparr>) = Next s' \<and> v_obj s' = v_obj s" for n
    using Cons.IH[OF rest, of "i + 1" "s\<lparr>v_next := n\<rparr>"] by simp
  show ?case
  proof (cases "v_obj s = None \<and> anonymous f")
    case True
    obtain b isPtr where d: "deref (fieldTyp f) = (b, isPtr)" by (cases "deref (fieldTyp f)")
    show ?thesis
      using nm True d step Cons.IH[OF rest, of "i + 1" s] by (cases b) auto
  next
    case False
    then show ?thesis using nm Cons.IH[OF rest, of "i + 1" s] by auto
  qed
qed

lemma rangeFields_match_Next:
  "\<exists>f \<in> set fs. isMatch IsExported f pkg name \<Longrightarrow> rangeFields IsExported pkg name e i fs s = Next s' \<Longrightarrow>
   v_obj s' \<noteq> None \<and> v_obj s = None \<and> \<not> e_multiples e"
proof (induction fs arbitrary: i s)
  case Nil
  then show ?case by simp
next
  case (Cons f fs)
  show ?case
  proof (cases "isMatch IsExported f pkg name")
    case True
    with Cons.prems(2) obtain s1 where pm: "potentialMatch e i (FieldObj f) s = Next s1"
      and rest: "rangeFields IsExported pkg name e (i + 1) fs s1 = Next s'"
      by (auto split: flow.splits)
    from potentialMatch_Next[OF pm] have 1: "v_obj s1 \<noteq> None" "v_obj s = None" "\<not> e_multiples e"
      by auto
    from scanned_rangeFields[of IsExported pkg name s1 e "i + 1" fs] rest 1(1) have "v_obj s' \<noteq> None"
      by (auto dest: Next_keeps_obj)
    with 1 show ?thesis by simp
  next
    case False
    with Cons.prems(1) have ex: "\<exists>f \<in> set fs. isMatch IsExported f pkg name" by auto
    show ?thesis
    proof (cases "v_obj s = None \<and> anonymous f")
      case emb: True
      obtain b isPtr where d: "deref (fieldTyp f) = (b, isPtr)" by (cases "deref (fieldTyp f)")
      show ?thesis
      proof (cases b)
        case (Named t)
        let ?s1 = "s\<lparr>v_next := v_next s @
                  [\<lparr>e_typ = Some t, e_index = concat_index (e_index e) i,
                    e_indirect = (e_indirect e \<or> isPtr), e_multiples = e_multiples e\<rparr>]\<rparr>"
        from Cons.prems(2) False emb d Named have "rangeFields IsExported pkg name e (i + 1) fs ?s1 = Next s'"
          by simp
        from Cons.IH[OF ex this] show ?thesis by simp
      qed (use Cons.prems(2) False emb d Cons.IH[OF ex, of "i + 1" s] in auto)
    next
      case nemb: False
      with Cons.prems(2) False have "rangeFields IsExported pkg name e (i + 1) fs s = Next s'" by auto
      from Cons.IH[OF ex this] show ?thesis .
    qed
  qed
qed


lemma isMatch_visible: "isMatch IsExported f pkg name \<longleftrightarrow> visible IsExported (fieldName f) (fieldPkg f) pkg name"
  by (simp add: isMatch_def visible_def)

lemma lookup_no_match:
  assumes "name \<noteq> ''_''" and "\<forall>m \<in> set ms. \<not> visible IsExported (funcName m) (funcPkg m) pkg name"
  shows "lookupMethod IsExported ms pkg name = Inr (-1, None)"
  using assms lookupMethod_range_None[of IsExported 0 ms pkg name "-1"] by (simp add: lookupMethod_def)

lemma lookup_match:
  assumes "name \<noteq> ''_''" and "\<exists>m \<in> set ms. visible IsExported (funcName m) (funcPkg m) pkg name"
  obtains j m where "lookupMethod IsExported ms pkg name = Inr (j, Some m)"
  using assms by (cases rule: lookupMethod_range_cases[of IsExported 0 ms pkg name]) (auto simp: lookupMethod_def)

lemma switchTyp_no_match:
  assumes "name \<noteq> ''_''" and "\<not> typeMatches IsExported pkg name (v_typ s)"
  shows "\<exists>s'. switchTyp IsExported pkg name e s = Next s' \<and> v_obj s' = v_obj s"
proof (cases "v_typ s")
  case (Struct fs)
  with assms(2) have "\<forall>f \<in> set fs. \<not> isMatch IsExported f pkg name"
    by (simp add: typeMatches_def isMatch_visible)
  from rangeFields_no_match[OF this] Struct show ?thesis by (simp add: switchTyp_def)
next
  case (Interface ms)
  with assms(2) have "\<forall>m \<in> set ms. \<not> visible IsExported (funcName m) (funcPkg m) pkg name"
    by (simp add: typeMatches_def)
  from lookup_no_match[OF assms(1) this] Interface show ?thesis by (simp add: switchTyp_def)
qed (simp_all add: switchTyp_def)

lemma switchTyp_match_Next:
  assumes "name \<noteq> ''_''" and "typeMatches IsExported pkg name (v_typ s)"
    and "switchTyp IsExported pkg name e s = Next s'"
  shows "v_obj s' \<noteq> None \<and> v_obj s = None \<and> \<not> e_multiples e"
proof (cases "v_typ s")
  case (Struct fs)
  with assms(2) have "\<exists>f \<in> set fs. isMatch IsExported f pkg name"
    by (simp add: typeMatches_def isMatch_visible)
  moreover from assms(3) Struct have "rangeFields IsExported pkg name e 0 fs s = Next s'"
    by (simp add: switchTyp_def)
  ultimately show ?thesis by (rule rangeFields_match_Next)
next
  case (Interface ms)
  with assms(2) have "\<exists>m \<in> set ms. visible IsExported (funcName m) (funcPkg m) pkg name"
    by (simp add: typeMatches_def)
  with assms(1) obtain j m where "lookupMethod IsExported ms pkg name = Inr (j, Some m)"
    by (rule lookup_match)
  with assms(3) Interface have "potentialMatch e j (FuncObj m) s = Next s'"
    by (simp add: switchTyp_def)
  from potentialMatch_Next[OF this] show ?thesis by auto
qed (use assms(2) in \<open>simp_all add: typeMatches_def\<close>)

lemma lookupEntry_no_match:
  assumes nb: "name \<noteq> ''_''" and t: "e_typ e = Some t" and fresh: "t \<notin> v_seen s"
    and nm: "\<not> namedMatches IsExported G pkg name t"
  shows "\<exists>s'. lookupEntry IsExported G pkg name e s = Next s' \<and> v_obj s' = v_obj s"
proof -
  let ?s1 = "s\<lparr>v_seen := insert t (v_seen s), v_typ := underlying (G t)\<rparr>"
  from nm have 1: "\<forall>m \<in> set (methods (G t)). \<not> visible IsExported (funcName m) (funcPkg m) pkg name"
    and 2: "\<not> typeMatches IsExported pkg name (v_typ ?s1)"
    by (auto simp: namedMatches_def)
  from switchTyp_no_match[OF nb 2, of e] lookup_no_match[OF nb 1] t fresh
  show ?thesis by (simp add: lookupEntry_def Let_def)
qed

lemma lookupEntry_match_Next:
  assumes nb: "name \<noteq> ''_''" and t: "e_typ e = Some t" and fresh: "t \<notin> v_seen s"
    and m: "namedMatches IsExported G pkg name t" and ret: "lookupEntry IsExported G pkg name e s = Next s'"
  shows "v_obj s' \<noteq> None \<and> v_obj s = None \<and> \<not> e_multiples e"
proof (cases "\<exists>m \<in> set (methods (G t)). visible IsExported (funcName m) (funcPkg m) pkg name")
  case True
  with nb obtain j m where "lookupMethod IsExported (methods (G t)) pkg name = Inr (j, Some m)"
    by (rule lookup_match)
  with ret t fresh have "potentialMatch e j (FuncObj m) (s\<lparr>v_seen := insert t (v_seen s)\<rparr>) = Next s'"
    by (simp add: lookupEntry_def Let_def)
  from potentialMatch_Next[OF this] show ?thesis by auto
next
  case False
  let ?s1 = "s\<lparr>v_seen := insert t (v_seen s), v_typ := underlying (G t)\<rparr>"
  from False m have tm: "typeMatches IsExported pkg name (v_typ ?s1)" by (simp add: namedMatches_def)
  from False have "lookupMethod IsExported (methods (G t)) pkg name = Inr (-1, None)"
    by (intro lookup_no_match[OF nb]) simp
  with ret t fresh have "switchTyp IsExported pkg name e ?s1 = Next s'"
    by (simp add: lookupEntry_def Let_def)
  from switchTyp_match_Next[OF nb tm this] show ?thesis by simp
qed

lemma lookupEntry_no_panic: "name \<noteq> ''_'' \<Longrightarrow> lookupEntry IsExported G pkg name e s \<noteq> Panic err"
  using scanned_lookupEntry[of IsExported pkg name s G e] by (auto simp: scanned_def)

lemma rangeCurrent_no_panic: "name \<noteq> ''_'' \<Longrightarrow> rangeCurrent IsExported G pkg name es s \<noteq> Panic err"
  using scanned_rangeCurrent[of IsExported pkg name s G es] by (auto simp: scanned_def)

subsection \<open>Collisions at one depth\<close>

lemma lookupEntry_seen:
  assumes "lookupEntry IsExported G pkg name e s = Next s'"
  shows "v_seen s' \<subseteq> v_seen s \<union> set_option (e_typ e)"
proof (cases "e_typ e")
  case None
  with assms have "switchTyp IsExported pkg name e s = Next s'" by (simp add: lookupEntry_def)
  from switchTyp_keeps[OF this] show ?thesis by simp
next
  case (Some t)
  show ?thesis
  proof (cases "t \<in> v_seen s")
    case True
    with assms Some have "s' = s" by (simp add: lookupEntry_skip)
    then show ?thesis by auto
  next
    case False
    from lookupEntry_fresh[OF assms Some False] Some show ?thesis by simp
  qed
qed

lemma rangeCurrent_collision:
  assumes nb: "name \<noteq> ''_''"
  shows "allNamed es \<Longrightarrow> distinct (map e_typ es) \<Longrightarrow>
    (\<forall>e \<in> set es. \<forall>t. e_typ e = Some t \<and> t \<in> v_seen s \<longrightarrow> \<not> namedMatches IsExported G pkg name t) \<Longrightarrow>
    (v_obj s \<noteq> None \<and> (\<exists>e \<in> set es. entryMatches IsExported G pkg name T e)) \<or>
    (\<exists>e \<in> set es. entryMatches IsExported G pkg name T e \<and> e_multiples e) \<or>
    (\<exists>i j. i < j \<and> j < length es \<and> entryMatches IsExported G pkg name T (es ! i) \<and> entryMatches IsExported G pkg name T (es ! j)) \<Longrightarrow>
    \<exists>s'. rangeCurrent IsExported G pkg name es s = Return s'"
proof (induction es arbitrary: s)
  case Nil
  then show ?case by simp
next
  case (Cons e es)
  from Cons.prems(1) obtain t where t: "e_typ e = Some t" and named: "allNamed es"
    by (auto simp: allNamed_def)
  from Cons.prems(2) have dist: "distinct (map e_typ es)" and "Some t \<notin> e_typ ` set es"
    using t by auto
  then have tfresh: "\<forall>e' \<in> set es. e_typ e' \<noteq> Some t"
    by (metis imageI)
  have M_e: "entryMatches IsExported G pkg name T e \<longleftrightarrow> namedMatches IsExported G pkg name t"
    using t by (simp add: entryMatches_def)
  show ?case
  proof (cases "lookupEntry IsExported G pkg name e s")
    case (Return s')
    then show ?thesis by simp
  next
    case (Panic err)
    with lookupEntry_no_panic[OF nb] show ?thesis by blast
  next
    case (Next s1)
    have sc: "scanned IsExported pkg name s (Next s1)"
      using scanned_lookupEntry[of IsExported pkg name s G e] Next by simp
    have seen1: "v_seen s1 \<subseteq> insert t (v_seen s)"
      using lookupEntry_seen[OF Next] t by auto
    have free1: "\<forall>e' \<in> set es. \<forall>t'. e_typ e' = Some t' \<and> t' \<in> v_seen s1 \<longrightarrow> \<not> namedMatches IsExported G pkg name t'"
    proof (intro ballI allI impI)
      fix e' t' assume e': "e' \<in> set es" and t': "e_typ e' = Some t' \<and> t' \<in> v_seen s1"
      with tfresh have "t' \<noteq> t" by auto
      with t' seen1 have "t' \<in> v_seen s" by auto
      with Cons.prems(3) e' t' show "\<not> namedMatches IsExported G pkg name t'" by auto
    qed
    have head: "v_obj s1 \<noteq> None \<and> v_obj s = None \<and> \<not> e_multiples e" if m: "entryMatches IsExported G pkg name T e"
    proof -
      from m M_e have nm: "namedMatches IsExported G pkg name t" by simp
      with Cons.prems(3) t have "t \<notin> v_seen s" by auto
      from lookupEntry_match_Next[OF nb t this nm Next] show ?thesis .
    qed
    have "(v_obj s1 \<noteq> None \<and> (\<exists>e \<in> set es. entryMatches IsExported G pkg name T e)) \<or>
      (\<exists>e \<in> set es. entryMatches IsExported G pkg name T e \<and> e_multiples e) \<or>
      (\<exists>i j. i < j \<and> j < length es \<and> entryMatches IsExported G pkg name T (es ! i) \<and> entryMatches IsExported G pkg name T (es ! j))"
      using Cons.prems(4)
    proof (elim disjE conjE bexE exE)
      fix e' assume obj: "v_obj s \<noteq> None" and e': "e' \<in> set (e # es)" "entryMatches IsExported G pkg name T e'"
      with head have "e' \<noteq> e" by auto
      with e' have "e' \<in> set es" by simp
      moreover from sc obj have "v_obj s1 \<noteq> None" by (auto dest: Next_keeps_obj)
      ultimately show ?thesis using e'(2) by blast
    next
      fix e' assume e': "e' \<in> set (e # es)" "entryMatches IsExported G pkg name T e'" "e_multiples e'"
      with head have "e' \<noteq> e" by auto
      with e' show ?thesis by auto
    next
      fix i j assume ij: "i < j" "j < length (e # es)"
        "entryMatches IsExported G pkg name T ((e # es) ! i)" "entryMatches IsExported G pkg name T ((e # es) ! j)"
      show ?thesis
      proof (cases i)
        case 0
        with ij(3) head have "v_obj s1 \<noteq> None" by simp
        moreover from ij(1,2,4) have "es ! (j - 1) \<in> set es" "entryMatches IsExported G pkg name T (es ! (j - 1))"
          by (cases j; simp)+
        ultimately show ?thesis by blast
      next
        case (Suc i')
        with ij obtain j' where "j = Suc j'" "i' < j'" "j' < length es" by (cases j) auto
        with ij Suc show ?thesis by auto
      qed
    qed
    from Cons.IH[OF named dist free1 this] Next show ?thesis by simp
  qed
qed

lemma rangeCurrent_matchFree:
  assumes nb: "name \<noteq> ''_''"
  shows "matchFree IsExported G pkg name (v_seen s) \<Longrightarrow> rangeCurrent IsExported G pkg name es s = Next s' \<Longrightarrow>
    v_obj s' = None \<Longrightarrow> matchFree IsExported G pkg name (v_seen s')"
proof (induction es arbitrary: s)
  case Nil
  then show ?case by simp
next
  case (Cons e es)
  from Cons.prems(2) obtain s1 where 1: "lookupEntry IsExported G pkg name e s = Next s1"
    and 2: "rangeCurrent IsExported G pkg name es s1 = Next s'"
    by (auto split: flow.splits)
  from scanned_rangeCurrent[of IsExported pkg name s1 G es] 2 Cons.prems(3) have obj1: "v_obj s1 = None"
    by (auto dest: Next_None_obj)
  have "matchFree IsExported G pkg name (v_seen s1)"
    unfolding matchFree_def
  proof
    fix t assume t1: "t \<in> v_seen s1"
    show "\<not> namedMatches IsExported G pkg name t"
    proof (cases "t \<in> v_seen s")
      case True
      with Cons.prems(1) show ?thesis by (simp add: matchFree_def)
    next
      case False
      with t1 lookupEntry_seen[OF 1] have t: "e_typ e = Some t" by auto
      show ?thesis
      proof
        assume "namedMatches IsExported G pkg name t"
        from lookupEntry_match_Next[OF nb t False this 1] obj1 show False by simp
      qed
    qed
  qed
  from Cons.IH[OF this 2 Cons.prems(3)] show ?case .
qed

lemma frontierOK_initial: "frontierOK IsExported G pkg name (initialCurrent typ0) (initialVars typ0)"
  by (auto simp: frontierOK_def headVars_def matchFree_def initialVars_def initialCurrent_def
      split: prod.splits)

lemma frontierOK_levelAt:
  assumes nb: "name \<noteq> ''_''"
  shows "levelAt IsExported G pkg name d current s = Some (cur, s') \<Longrightarrow> frontierOK IsExported G pkg name current s \<Longrightarrow>
    frontierOK IsExported G pkg name cur s'"
proof (induction d arbitrary: current s)
  case 0
  then show ?case by simp
next
  case (Suc d)
  let ?s0 = "s\<lparr>v_next := []\<rparr>"
  from Suc.prems(1) obtain s1 where ne: "current \<noteq> []"
    and scan: "rangeCurrent IsExported G pkg name current ?s0 = Next s1"
    and obj: "v_obj s1 = None"
    and rest: "levelAt IsExported G pkg name d (consolidateMultiples (v_next s1)) s1 = Some (cur, s')"
    by (auto split: if_splits flow.splits)
  let ?cur = "consolidateMultiples (v_next s1)"
  from Suc.prems(2) have hv: "headVars s" and mf: "matchFree IsExported G pkg name (v_seen ?s0)"
    by (simp_all add: frontierOK_def)
  from scanned_rangeCurrent[of IsExported pkg name ?s0 G current] scan obj hv
  have 1: "headVars s1" by (auto simp: scanned_def headVars_def)
  from rangeCurrent_matchFree[OF nb mf scan obj] have 2: "matchFree IsExported G pkg name (v_seen s1)" .
  have 3: "allNamed ?cur"
    by (rule consolidateMultiples_allNamed, rule rangeCurrent_allNamed[OF scan])
      (simp add: allNamed_def)
  have 4: "distinct (map e_typ ?cur)"
  proof (cases "1 < length (v_next s1)")
    case True
    then show ?thesis by (rule consolidateMultiples_distinct)
  next
    case False
    then have "?cur = v_next s1" "length (v_next s1) \<le> 1" by (simp_all add: consolidateMultiples_def)
    then show ?thesis by (cases "v_next s1") auto
  qed
  from 1 2 3 4 have "frontierOK IsExported G pkg name ?cur s1" by (simp add: frontierOK_def)
  with rest show ?case by (rule Suc.IH)
qed


subsection \<open>The first depth with a match\<close>

lemma levelAt_Suc_None:
  "levelAt IsExported G pkg name d current s = None \<Longrightarrow> levelAt IsExported G pkg name (Suc d) current s = None"
proof (induction d arbitrary: current s)
  case 0
  then show ?case by simp
next
  case (Suc d)
  show ?case
  proof (cases "current = []")
    case True
    then show ?thesis by simp
  next
    case False
    show ?thesis
    proof (cases "rangeCurrent IsExported G pkg name current (s\<lparr>v_next := []\<rparr>)")
      case (Next s1)
      show ?thesis
      proof (cases "v_obj s1 = None")
        case True
        with Suc.prems False Next
        have "levelAt IsExported G pkg name d (consolidateMultiples (v_next s1)) s1 = None" by simp
        from Suc.IH[OF this] False Next True show ?thesis by simp
      next
        case nf: False
        with False Next show ?thesis by simp
      qed
    qed (use False in simp_all)
  qed
qed

lemma levelAt_Suc_end:
  "levelAt IsExported G pkg name d current s = Some (cur, s') \<Longrightarrow>
   levelAt IsExported G pkg name (Suc d) current s = levelAt IsExported G pkg name (Suc 0) cur s'"
proof (induction d arbitrary: current s)
  case 0
  then show ?case by simp
next
  case (Suc d)
  from Suc.prems obtain s1 where ne: "current \<noteq> []"
    and scan: "rangeCurrent IsExported G pkg name current (s\<lparr>v_next := []\<rparr>) = Next s1"
    and obj: "v_obj s1 = None"
    and rest: "levelAt IsExported G pkg name d (consolidateMultiples (v_next s1)) s1 = Some (cur, s')"
    by (auto split: if_splits flow.splits)
  have "levelAt IsExported G pkg name (Suc (Suc d)) current s
      = levelAt IsExported G pkg name (Suc d) (consolidateMultiples (v_next s1)) s1"
    using ne scan obj by simp
  also have "\<dots> = levelAt IsExported G pkg name (Suc 0) cur s'" using rest by (rule Suc.IH)
  finally show ?case .
qed

lemma levelAt_None_add:
  "levelAt IsExported G pkg name d current s = None \<Longrightarrow> levelAt IsExported G pkg name (d + k) current s = None"
proof (induction k)
  case 0
  then show ?case by simp
next
  case (Suc k)
  then have "levelAt IsExported G pkg name (d + k) current s = None" by simp
  then have "levelAt IsExported G pkg name (Suc (d + k)) current s = None" by (rule levelAt_Suc_None)
  then show ?case by simp
qed

lemma levelAt_None_later:
  assumes "levelAt IsExported G pkg name d current s = None" and "d \<le> d'"
  shows "levelAt IsExported G pkg name d' current s = None"
proof -
  from assms(2) obtain k where "d' = d + k" by (auto simp: le_iff_add)
  with levelAt_None_add[OF assms(1), of k] show ?thesis by simp
qed

lemma frontier_not_blank: "frontier IsExported G typ0 pkg name d = Some r \<Longrightarrow> name \<noteq> ''_''"
  by (auto simp: frontier_def)

lemma frontier_levelAt:
  "frontier IsExported G typ0 pkg name d = Some r \<Longrightarrow>
   levelAt IsExported G pkg name d (initialCurrent typ0) (initialVars typ0) = Some r"
  by (auto simp: frontier_def split: if_splits)

lemma search_found:
  assumes fr: "frontier IsExported G typ0 pkg name d = Some (current, s)"
    and scan: "rangeCurrent IsExported G pkg name current (s\<lparr>v_next := []\<rparr>) = Next s'"
    and obj: "v_obj s' = Some found"
  shows "LookupFieldOrMethod IsExported G typ0 pkg name = Some (Inr (Some found, v_index s', v_indirect s'))"
    and "objVisible IsExported found pkg name"
    and "d < d' \<Longrightarrow> frontier IsExported G typ0 pkg name d' = None"
proof -
  let ?s0 = "s\<lparr>v_next := []\<rparr>"
  from fr have nb: "name \<noteq> ''_''" by (rule frontier_not_blank)
  from fr have lv: "levelAt IsExported G pkg name d (initialCurrent typ0) (initialVars typ0) = Some (current, s)"
    by (rule frontier_levelAt)
  from headVars_levelAt[OF lv headVars_initial] have hv: "headVars s" .
  have ne: "current \<noteq> []"
  proof
    assume "current = []"
    with scan have "s' = ?s0" by simp
    with obj hv show False by (simp add: headVars_def)
  qed
  from scan obj ne have "lastScan IsExported G pkg name current s = Some (Inr (Some found, v_index s', v_indirect s'))"
    by (simp add: lastScan_def)
  then have "searchDepth IsExported G pkg name current s = Some (Inr (Some found, v_index s', v_indirect s'))"
    by (rule searchDepth_lastScan)
  with searchDepth_levelAt[OF lv] nb
  show "LookupFieldOrMethod IsExported G typ0 pkg name = Some (Inr (Some found, v_index s', v_indirect s'))"
    by (simp add: LookupFieldOrMethod_def)
  from scanned_rangeCurrent[of IsExported pkg name ?s0 G current] scan obj hv
  show "objVisible IsExported found pkg name" by (auto simp: scanned_def headVars_def)
  have "levelAt IsExported G pkg name (Suc d) (initialCurrent typ0) (initialVars typ0) = None"
    using levelAt_Suc_end[OF lv] ne scan obj by simp
  then have "levelAt IsExported G pkg name d' (initialCurrent typ0) (initialVars typ0) = None" if "d < d'"
    by (rule levelAt_None_later) (use that in simp)
  then show "frontier IsExported G typ0 pkg name d' = None" if "d < d'"
    using that by (simp add: frontier_def)
qed

text \<open>
  Two instances at depth 0: a method declared on the named type the search starts from,
  and a field of its struct that is the only one to match, are returned whatever the
  types embedded below declare.
\<close>

lemma scan_unchanged:
  assumes "scanned IsExported pkg name s (Next s')" and "v_obj s' = v_obj s"
  shows "v_index s' = v_index s \<and> v_indirect s' = v_indirect s"
  using assms by (auto simp: scanned_def)

lemma rangeFields_skip:
  "\<forall>f \<in> set pre. \<not> isMatch IsExported f pkg name \<Longrightarrow>
   \<exists>s1. rangeFields IsExported pkg name e i (pre @ rest) s = rangeFields IsExported pkg name e (i + int (length pre)) rest s1
       \<and> v_obj s1 = v_obj s \<and> v_index s1 = v_index s \<and> v_indirect s1 = v_indirect s"
proof (induction pre arbitrary: i s)
  case Nil
  show ?case by (intro exI[of _ s]) simp
next
  case (Cons f pre)
  then have nm: "\<not> isMatch IsExported f pkg name" and rest: "\<forall>f \<in> set pre. \<not> isMatch IsExported f pkg name" by auto
  have step: "\<exists>s1. rangeFields IsExported pkg name e (i + 1) (pre @ rest) s0
         = rangeFields IsExported pkg name e (i + int (length (f # pre))) rest s1
       \<and> v_obj s1 = v_obj s \<and> v_index s1 = v_index s \<and> v_indirect s1 = v_indirect s"
    if "v_obj s0 = v_obj s" "v_index s0 = v_index s" "v_indirect s0 = v_indirect s" for s0
  proof -
    have "i + 1 + int (length pre) = i + int (length (f # pre))" by simp
    with Cons.IH[OF rest, of "i + 1" s0] that show ?thesis by simp
  qed
  show ?case
  proof (cases "v_obj s = None \<and> anonymous f")
    case True
    obtain b isPtr where d: "deref (fieldTyp f) = (b, isPtr)" by (cases "deref (fieldTyp f)")
    show ?thesis
    proof (cases b)
      case (Named t)
      let ?s0 = "s\<lparr>v_next := v_next s @
                  [\<lparr>e_typ = Some t, e_index = concat_index (e_index e) i,
                    e_indirect = (e_indirect e \<or> isPtr), e_multiples = e_multiples e\<rparr>]\<rparr>"
      have "rangeFields IsExported pkg name e i ((f # pre) @ rest) s = rangeFields IsExported pkg name e (i + 1) (pre @ rest) ?s0"
        using nm True d Named by simp
      with step[of ?s0] show ?thesis by simp
    qed (use nm True d step[of s] in auto)
  next
    case False
    then have "rangeFields IsExported pkg name e i ((f # pre) @ rest) s = rangeFields IsExported pkg name e (i + 1) (pre @ rest) s"
      using nm by auto
    with step[of s] show ?thesis by simp
  qed
qed

lemma rangeFields_single_match:
  assumes pre: "\<forall>f' \<in> set pre. \<not> isMatch IsExported f' pkg name" and f: "isMatch IsExported f pkg name"
    and post: "\<forall>f' \<in> set post. \<not> isMatch IsExported f' pkg name"
    and obj: "v_obj s = None" and flag: "\<not> e_multiples e"
  shows "\<exists>s'. rangeFields IsExported pkg name e 0 (pre @ f # post) s = Next s' \<and>
     v_obj s' = Some (FieldObj f) \<and> v_index s' = e_index e @ [int (length pre)] \<and>
     v_indirect s' = e_indirect e"
proof -
  from rangeFields_skip[OF pre, of e 0 "f # post" s] obtain s1 where
    1: "rangeFields IsExported pkg name e 0 (pre @ f # post) s = rangeFields IsExported pkg name e (int (length pre)) (f # post) s1"
    and s1: "v_obj s1 = v_obj s" by auto
  let ?s2 = "s1\<lparr>v_index := concat_index (e_index e) (int (length pre)),
                 v_obj := Some (FieldObj f), v_indirect := e_indirect e\<rparr>"
  have pm: "potentialMatch e (int (length pre)) (FieldObj f) s1 = Next ?s2"
    using s1 obj flag by (simp add: potentialMatch_def)
  from rangeFields_no_match[OF post, of e "int (length pre) + 1" ?s2] obtain s' where
    3: "rangeFields IsExported pkg name e (int (length pre) + 1) post ?s2 = Next s'" and o: "v_obj s' = v_obj ?s2"
    by auto
  from scanned_rangeFields[of IsExported pkg name ?s2 e "int (length pre) + 1" post] 3
  have "scanned IsExported pkg name ?s2 (Next s')" by simp
  from scan_unchanged[OF this o] o have "v_obj s' = Some (FieldObj f)"
    "v_index s' = e_index e @ [int (length pre)]" "v_indirect s' = e_indirect e"
    by (simp_all add: concat_index_def)
  moreover have "rangeFields IsExported pkg name e 0 (pre @ f # post) s = Next s'"
    using 1 f pm 3 by simp
  ultimately show ?thesis by blast
qed


lemma frontier_0:
  "name \<noteq> ''_'' \<Longrightarrow> frontier IsExported G typ0 pkg name 0 = Some (initialCurrent typ0, initialVars typ0)"
  by (simp add: frontier_def)

lemma declared_method_shadows:
  assumes nb: "name \<noteq> ''_''" and typ0: "deref typ0 = (Named t, isPtr)"
    and m: "lookupMethod IsExported (methods (G t)) pkg name = Inr (i, Some m)"
  shows "LookupFieldOrMethod IsExported G typ0 pkg name = Some (Inr (Some (FuncObj m), [i], isPtr))"
proof -
  let ?s' = "\<lparr>v_typ = Named t, v_obj = Some (FuncObj m), v_index = [i], v_indirect = isPtr,
              v_seen = {t}, v_next = []\<rparr>"
  have scan: "rangeCurrent IsExported G pkg name (initialCurrent typ0) ((initialVars typ0)\<lparr>v_next := []\<rparr>) = Next ?s'"
    using typ0 m
    by (simp add: initialCurrent_def initialVars_def lookupEntry_def potentialMatch_def concat_index_def)
  from search_found(1)[OF frontier_0[OF nb] scan] show ?thesis by simp
qed

lemma declared_field_shadows:
  assumes nb: "name \<noteq> ''_''" and typ0: "deref typ0 = (Named t, isPtr)"
    and nom: "\<forall>m \<in> set (methods (G t)). \<not> visible IsExported (funcName m) (funcPkg m) pkg name"
    and str: "underlying (G t) = Struct (pre @ f # post)"
    and pre: "\<forall>f' \<in> set pre. \<not> isMatch IsExported f' pkg name" and f: "isMatch IsExported f pkg name"
    and post: "\<forall>f' \<in> set post. \<not> isMatch IsExported f' pkg name"
  shows "LookupFieldOrMethod IsExported G typ0 pkg name
     = Some (Inr (Some (FieldObj f), [int (length pre)], isPtr))"
proof -
  let ?e = "\<lparr>e_typ = Some t, e_index = [], e_indirect = isPtr, e_multiples = False\<rparr>"
  let ?s1 = "(initialVars typ0)\<lparr>v_next := [], v_seen := {t}, v_typ := Struct (pre @ f # post)\<rparr>"
  from rangeFields_single_match[OF pre f post, of ?s1 ?e] obtain s' where
    rf: "rangeFields IsExported pkg name ?e 0 (pre @ f # post) ?s1 = Next s'"
    and res: "v_obj s' = Some (FieldObj f)" "v_index s' = [int (length pre)]" "v_indirect s' = isPtr"
    by (auto simp: initialVars_def)
  have "lookupMethod IsExported (methods (G t)) pkg name = Inr (-1, None)"
    using nb nom by (rule lookup_no_match)
  then have scan: "rangeCurrent IsExported G pkg name (initialCurrent typ0) ((initialVars typ0)\<lparr>v_next := []\<rparr>) = Next s'"
    using typ0 str rf
    by (simp add: initialCurrent_def initialVars_def lookupEntry_def switchTyp_def)
  from search_found(1)[OF frontier_0[OF nb] scan res(1)] res show ?thesis by simp
qed



text \<open>The other lookup of that scenario: \<open>M\<close> is found in \<^verbatim>\<open>Embedded\<close>, at depth 1.\<close>

lemma lookup_promoted_method:
  "LookupFieldOrMethod exExported exGraph (Named T_S) pkgP ''M'' = Some (Inr (Some (FuncObj funcM), [0, 0], False))"
  by code_simp

subsection \<open>Ambiguous selectors\<close>

text \<open>
  C2: if two distinct entries of the frontier at some embedding depth both have a member
  that matches the selector, or one entry that has such a member carries the flag
  \<^verbatim>\<open>multiples\<close>, then \<^verbatim>\<open>LookupFieldOrMethod\<close> returns a nil object with a non-nil index;
  not found is a nil object with a nil index.
\<close>

theorem same_depth_collision:
  assumes fr: "frontier IsExported G typ0 pkg name d = Some (current, s)"
    and two: "(\<exists>i j. i < j \<and> j < length current \<and>
                 entryMatches IsExported G pkg name (v_typ s) (current ! i) \<and>
                 entryMatches IsExported G pkg name (v_typ s) (current ! j)) \<or>
              (\<exists>e \<in> set current. entryMatches IsExported G pkg name (v_typ s) e \<and> e_multiples e)"
  shows "\<exists>idx ind. LookupFieldOrMethod IsExported G typ0 pkg name = Some (Inr (None, idx, ind)) \<and> idx \<noteq> []"
proof -
  let ?s0 = "s\<lparr>v_next := []\<rparr>"
  from fr have nb: "name \<noteq> ''_''" by (rule frontier_not_blank)
  from fr have lv: "levelAt IsExported G pkg name d (initialCurrent typ0) (initialVars typ0) = Some (current, s)"
    by (rule frontier_levelAt)
  from frontierOK_levelAt[OF nb lv frontierOK_initial]
  have hv: "headVars s" and mf: "matchFree IsExported G pkg name (v_seen s)"
    and dist: "distinct (map e_typ current)"
    and shape: "allNamed current \<or> (\<exists>e. current = [e] \<and> \<not> e_multiples e)"
    by (simp_all add: frontierOK_def)
  from two shape have named: "allNamed current" by auto
  from two have ne: "current \<noteq> []" by auto
  have free: "\<forall>e \<in> set current. \<forall>t. e_typ e = Some t \<and> t \<in> v_seen ?s0 \<longrightarrow> \<not> namedMatches IsExported G pkg name t"
    using mf by (simp add: matchFree_def)
  have "\<exists>s'. rangeCurrent IsExported G pkg name current ?s0 = Return s'"
    by (rule rangeCurrent_collision[OF nb named dist free, where T = "v_typ s"]) (use two in blast)
  then obtain s' where ret: "rangeCurrent IsExported G pkg name current ?s0 = Return s'" ..
  with scanned_rangeCurrent[of IsExported pkg name ?s0 G current]
  have amb: "v_obj s' = None" "v_index s' \<noteq> []" by (simp_all add: scanned_def)
  from ret ne have "lastScan IsExported G pkg name current s = Some (Inr (v_obj s', v_index s', v_indirect s'))"
    by (simp add: lastScan_def)
  then have "searchDepth IsExported G pkg name current s = Some (Inr (None, v_index s', v_indirect s'))"
    using amb by (simp add: searchDepth_lastScan)
  with searchDepth_levelAt[OF lv] nb amb show ?thesis
    by (simp add: LookupFieldOrMethod_def)
qed

text \<open>
  \<^verbatim>\<open>Top\<close> embeds \<^verbatim>\<open>L\<close> and \<^verbatim>\<open>R\<close>. Both declare \<open>y\<close>: the two entries at depth 1 match. Both
  embed \<^verbatim>\<open>Base\<close>, which declares \<open>x\<close>: the single entry at depth 2 matches and is
  flagged. Both selectors are ambiguous.
\<close>

theorem same_depth_collision_witness:
  "(\<exists>idx ind. LookupFieldOrMethod exExported exGraph (Named T_Top) pkgP ''y'' = Some (Inr (None, idx, ind))
       \<and> idx \<noteq> []) \<and>
   (\<exists>idx ind. LookupFieldOrMethod exExported exGraph (Named T_Top) pkgP ''x'' = Some (Inr (None, idx, ind))
       \<and> idx \<noteq> [])"
proof
  let ?top = "Struct [Field ''L'' pkgP (Named T_L) True, Field ''R'' pkgP (Named T_R) True]"
  let ?c = "[\<lparr>e_typ = Some T_L, e_index = [0], e_indirect = False, e_multiples = False\<rparr>,
             \<lparr>e_typ = Some T_R, e_index = [1], e_indirect = False, e_multiples = False\<rparr>]"
  let ?s = "\<lparr>v_typ = ?top, v_obj = None, v_index = [], v_indirect = False, v_seen = {T_Top},
             v_next = ?c\<rparr>"
  have fr: "frontier exExported exGraph (Named T_Top) pkgP ''y'' 1 = Some (?c, ?s)"
    by code_simp
  have "entryMatches exExported exGraph pkgP ''y'' (v_typ ?s) (?c ! 0)"
    and "entryMatches exExported exGraph pkgP ''y'' (v_typ ?s) (?c ! 1)"
    by code_simp+
  then have two: "(\<exists>i j. i < j \<and> j < length ?c \<and>
                 entryMatches exExported exGraph pkgP ''y'' (v_typ ?s) (?c ! i) \<and>
                 entryMatches exExported exGraph pkgP ''y'' (v_typ ?s) (?c ! j)) \<or>
              (\<exists>e \<in> set ?c. entryMatches exExported exGraph pkgP ''y'' (v_typ ?s) e \<and> e_multiples e)"
    by (intro disjI1 exI[of _ 0] exI[of _ 1]) simp
  from same_depth_collision[OF fr two]
  show "\<exists>idx ind. LookupFieldOrMethod exExported exGraph (Named T_Top) pkgP ''y'' = Some (Inr (None, idx, ind))
       \<and> idx \<noteq> []" .
next
  let ?r = "Struct [Field ''Base'' pkgP (Named T_Base) True, Field ''y'' pkgP intT False]"
  let ?e = "\<lparr>e_typ = Some T_Base, e_index = [0, 0], e_indirect = False, e_multiples = True\<rparr>"
  let ?s = "\<lparr>v_typ = ?r, v_obj = None, v_index = [], v_indirect = False,
             v_seen = {T_R, T_L, T_Top},
             v_next = [\<lparr>e_typ = Some T_Base, e_index = [0, 0], e_indirect = False,
                         e_multiples = False\<rparr>,
                       \<lparr>e_typ = Some T_Base, e_index = [1, 0], e_indirect = False,
                         e_multiples = False\<rparr>]\<rparr>"
  have fr: "frontier exExported exGraph (Named T_Top) pkgP ''x'' 2 = Some ([?e], ?s)"
    by code_simp
  have "entryMatches exExported exGraph pkgP ''x'' (v_typ ?s) ?e" by code_simp
  then have two: "(\<exists>i j. i < j \<and> j < length [?e] \<and>
                 entryMatches exExported exGraph pkgP ''x'' (v_typ ?s) ([?e] ! i) \<and>
                 entryMatches exExported exGraph pkgP ''x'' (v_typ ?s) ([?e] ! j)) \<or>
              (\<exists>e \<in> set [?e]. entryMatches exExported exGraph pkgP ''x'' (v_typ ?s) e \<and> e_multiples e)"
    by simp
  from same_depth_collision[OF fr two]
  show "\<exists>idx ind. LookupFieldOrMethod exExported exGraph (Named T_Top) pkgP ''x'' = Some (Inr (None, idx, ind))
       \<and> idx \<noteq> []" .
qed

section \<open>Properties of MissingMethod\<close>

lemma lookupMethod_range_find:
  "snd (lookupMethod_range IsExported i ms pkg name) = find (\<lambda>m. visible IsExported (funcName m) (funcPkg m) pkg name) ms"
  by (induction ms arbitrary: i) (auto simp: visible_def)

lemma lookupMethod_find:
  "name \<noteq> ''_'' \<Longrightarrow> \<exists>i. lookupMethod IsExported ms pkg name
      = Inr (i, find (\<lambda>m. visible IsExported (funcName m) (funcPkg m) pkg name) ms)"
  using lookupMethod_range_find[of IsExported 0 ms pkg name]
  by (cases "lookupMethod_range IsExported 0 ms pkg name") (simp add: lookupMethod_def)

lemma deref_isPointer: "snd (deref t) = isPointer t"
  by (cases t) (simp_all add: isPointer_def)

lemma rangeInterface_step:
  "rangeInterface IsExported IsIdentical ims (m # ms) =
     (case interfaceVerdict IsExported IsIdentical ims m of
        Satisfied \<Rightarrow> rangeInterface IsExported IsIdentical ims ms
      | Crash err \<Rightarrow> Inl err
      | v \<Rightarrow> Inr (Some m, v = WrongType))"
proof (cases "funcName m = ''_''")
  case True
  then show ?thesis by (simp add: interfaceVerdict_def lookupMethod_def)
next
  case False
  from lookupMethod_find[OF False, of IsExported ims "funcPkg m"] obtain i where
    "lookupMethod IsExported ims (funcPkg m) (funcName m)
      = Inr (i, find (\<lambda>m'. visible IsExported (funcName m') (funcPkg m') (funcPkg m) (funcName m)) ims)" ..
  with False show ?thesis
    by (simp add: interfaceVerdict_def split: option.splits)
qed

lemma rangeConcrete_step:
  "rangeConcrete IsExported IsIdentical G typ0 (m # ms) =
     (case concreteVerdict IsExported IsIdentical G typ0 m of
        Satisfied \<Rightarrow> rangeConcrete IsExported IsIdentical G typ0 ms
      | Crash err \<Rightarrow> Some (Inl err)
      | Diverges \<Rightarrow> None
      | v \<Rightarrow> Some (Inr (Some m, v = WrongType)))"
proof (cases "LookupFieldOrMethod IsExported G typ0 (funcPkg m) (funcName m)")
  case None
  then show ?thesis by (simp add: concreteVerdict_def)
next
  case (Some r)
  show ?thesis
  proof (cases r)
    case (Inl err)
    with Some show ?thesis by (simp add: concreteVerdict_def)
  next
    case (Inr res)
    obtain obj idx ind where res: "res = (obj, idx, ind)" by (cases res)
    show ?thesis
    proof (cases obj)
      case None
      with Some Inr res show ?thesis by (simp add: concreteVerdict_def)
    next
      case (Some found)
      show ?thesis
      proof (cases found)
        case (FieldObj fld)
        with \<open>LookupFieldOrMethod IsExported G typ0 (funcPkg m) (funcName m) = Some r\<close> Inr res Some
        show ?thesis by (simp add: concreteVerdict_def)
      next
        case (FuncObj f)
        with \<open>LookupFieldOrMethod IsExported G typ0 (funcPkg m) (funcName m) = Some r\<close> Inr res Some
        have L: "LookupFieldOrMethod IsExported G typ0 (funcPkg m) (funcName m) = Some (Inr (Some (FuncObj f), idx, ind))"
          by simp
        show ?thesis
        proof (cases "funcTyp f")
          case (Signature recv ps rs)
          have "(case recv of None \<Rightarrow> False | Some rv \<Rightarrow> snd (deref (varTyp rv)) \<and> \<not> ind)
              \<longleftrightarrow> (case recv of None \<Rightarrow> False | Some rv \<Rightarrow> isPointer (varTyp rv)) \<and> \<not> ind"
            by (cases recv) (simp_all add: deref_isPointer)
          with L Signature show ?thesis by (auto simp: concreteVerdict_def)
        qed (use L in \<open>simp_all add: concreteVerdict_def\<close>)
      qed
    qed
  qed
qed


lemma firstUnsatisfied_Nil: "firstUnsatisfied v [] = Some (Inr (None, False))"
  by (simp add: firstUnsatisfied_def)

lemma firstUnsatisfied_Cons:
  "firstUnsatisfied v (m # ms) =
     (case v m of
        Satisfied \<Rightarrow> firstUnsatisfied v ms
      | Crash err \<Rightarrow> Some (Inl err)
      | Diverges \<Rightarrow> None
      | w \<Rightarrow> Some (Inr (Some m, w = WrongType)))"
  by (cases "v m") (simp_all add: firstUnsatisfied_def)

lemma rangeInterface_firstUnsatisfied:
  "Some (rangeInterface IsExported IsIdentical ims T) = firstUnsatisfied (interfaceVerdict IsExported IsIdentical ims) T"
proof (induction T)
  case Nil
  show ?case by (simp add: firstUnsatisfied_Nil)
next
  case (Cons m ms)
  have nd: "interfaceVerdict IsExported IsIdentical ims m \<noteq> Diverges"
    by (simp add: interfaceVerdict_def split: option.splits)
  show ?case
  proof (cases "interfaceVerdict IsExported IsIdentical ims m")
    case Satisfied
    with Cons.IH show ?thesis
      by (simp add: rangeInterface_step firstUnsatisfied_Cons del: rangeInterface.simps)
  qed (use nd in \<open>simp_all add: rangeInterface_step firstUnsatisfied_Cons del: rangeInterface.simps\<close>)
qed

lemma rangeConcrete_firstUnsatisfied:
  "rangeConcrete IsExported IsIdentical G typ0 T = firstUnsatisfied (concreteVerdict IsExported IsIdentical G typ0) T"
proof (induction T)
  case Nil
  show ?case by (simp add: firstUnsatisfied_Nil)
next
  case (Cons m ms)
  show ?case
  proof (cases "concreteVerdict IsExported IsIdentical G typ0 m")
    case Satisfied
    with Cons.IH show ?thesis
      by (simp add: rangeConcrete_step firstUnsatisfied_Cons del: rangeConcrete.simps)
  qed (simp_all add: rangeConcrete_step firstUnsatisfied_Cons del: rangeConcrete.simps)
qed

lemma requiredMethod_interface:
  "Underlying G typ0 = Interface ims \<Longrightarrow>
   requiredMethod IsExported IsIdentical G typ0 = interfaceVerdict IsExported IsIdentical ims"
  by (simp add: requiredMethod_def fun_eq_iff)

lemma requiredMethod_concrete:
  "\<not> isInterface (Underlying G typ0) \<Longrightarrow>
   requiredMethod IsExported IsIdentical G typ0 = concreteVerdict IsExported IsIdentical G typ0"
  by (cases "Underlying G typ0") (simp_all add: requiredMethod_def fun_eq_iff isInterface_def)

lemma MissingMethod_firstUnsatisfied:
  "MissingMethod IsExported IsIdentical G typ0 T = firstUnsatisfied (requiredMethod IsExported IsIdentical G typ0) T"
proof (cases "T = []")
  case True
  then show ?thesis by (simp add: MissingMethod_def firstUnsatisfied_Nil IsEmpty_def)
next
  case False
  show ?thesis
  proof (cases "isInterface (Underlying G typ0)")
    case True
    then obtain ims where u: "Underlying G typ0 = Interface ims"
      by (cases "Underlying G typ0") (simp_all add: isInterface_def)
    have "MissingMethod IsExported IsIdentical G typ0 T = Some (rangeInterface IsExported IsIdentical ims T)"
      using False u by (simp add: MissingMethod_def IsEmpty_def)
    then show ?thesis
      by (simp only: rangeInterface_firstUnsatisfied requiredMethod_interface[OF u])
  next
    case nI: False
    have "MissingMethod IsExported IsIdentical G typ0 T = rangeConcrete IsExported IsIdentical G typ0 T"
      using False nI by (cases "Underlying G typ0") (simp_all add: MissingMethod_def IsEmpty_def isInterface_def)
    then show ?thesis
      by (simp only: rangeConcrete_firstUnsatisfied requiredMethod_concrete[OF nI])
  qed
qed

lemma firstUnsatisfied_append:
  "\<forall>m \<in> set pre. v m = Satisfied \<Longrightarrow> firstUnsatisfied v (pre @ ms) = firstUnsatisfied v ms"
  by (induction pre) (simp_all add: firstUnsatisfied_Cons)

lemma firstUnsatisfied_implements:
  "firstUnsatisfied v T = Some (Inr (None, False)) \<longleftrightarrow> (\<forall>m \<in> set T. v m = Satisfied)"
proof (induction T)
  case Nil
  show ?case by (simp add: firstUnsatisfied_Nil)
next
  case (Cons m ms)
  then show ?case by (cases "v m") (simp_all add: firstUnsatisfied_Cons)
qed


text \<open>
  C5: \<^verbatim>\<open>MissingMethod\<close> returns (nil, false) if \<open>T\<close> has no required method. In general its
  answer is the first required method of \<open>T\<close>, in method-set order, that is not satisfied,
  with the flag false if that method is missing (no member of that name, a member that is
  not a method, or a method that fails the method-set test) and true exactly if a method
  of that name is present and its signature is not identical to the required one; and it
  returns (nil, false) exactly if every required method is satisfied.
\<close>

theorem MissingMethod_first_unsatisfied:
  "(T = [] \<longrightarrow> MissingMethod IsExported IsIdentical G typ0 T = Some (Inr (None, False))) \<and>
   MissingMethod IsExported IsIdentical G typ0 T = firstUnsatisfied (requiredMethod IsExported IsIdentical G typ0) T \<and>
   (MissingMethod IsExported IsIdentical G typ0 T = Some (Inr (None, False)) \<longleftrightarrow>
      (\<forall>m \<in> set T. requiredMethod IsExported IsIdentical G typ0 m = Satisfied))"
proof (intro conjI impI)
  show "MissingMethod IsExported IsIdentical G typ0 T = Some (Inr (None, False))" if "T = []"
    using that by (simp add: MissingMethod_def IsEmpty_def)
  show "MissingMethod IsExported IsIdentical G typ0 T = firstUnsatisfied (requiredMethod IsExported IsIdentical G typ0) T"
    by (rule MissingMethod_firstUnsatisfied)
  show "MissingMethod IsExported IsIdentical G typ0 T = Some (Inr (None, False)) \<longleftrightarrow>
      (\<forall>m \<in> set T. requiredMethod IsExported IsIdentical G typ0 m = Satisfied)"
    by (simp only: MissingMethod_firstUnsatisfied firstUnsatisfied_implements)
qed


text \<open>
  \<^verbatim>\<open>W\<close> embeds \<^verbatim>\<open>*V\<close> and has both methods. \<^verbatim>\<open>V\<close> has \<^verbatim>\<open>Get\<close> but no \<^verbatim>\<open>Absent\<close>, which is reported
  before \<^verbatim>\<open>Set\<close>. \<^verbatim>\<open>V\<close> has a \<^verbatim>\<open>Get\<close> that returns \<^verbatim>\<open>int\<close>, not \<^verbatim>\<open>string\<close>: the wrong type. In
  \<^verbatim>\<open>S\<close> the name \<open>X\<close> is a field, not a method.
\<close>

theorem MissingMethod_first_unsatisfied_witness:
  "MissingMethod exExported exIdentical exGraph (Named T_W) [getI, setI] = Some (Inr (None, False)) \<and>
   MissingMethod exExported exIdentical exGraph (Named T_V) [getI, absentI, setI] = Some (Inr (Some absentI, False)) \<and>
   MissingMethod exExported exIdentical exGraph (Named T_V) [getStringI, setI] = Some (Inr (Some getStringI, True)) \<and>
   MissingMethod exExported exIdentical exGraph (Named T_S) [Func ''X'' pkgP intT] = Some (Inr (Some (Func ''X'' pkgP intT), False))"
proof -
  have "firstUnsatisfied (requiredMethod exExported exIdentical exGraph (Named T_W)) [getI, setI]
      = Some (Inr (None, False))"
    and "firstUnsatisfied (requiredMethod exExported exIdentical exGraph (Named T_V)) [getI, absentI, setI]
      = Some (Inr (Some absentI, False))"
    and "firstUnsatisfied (requiredMethod exExported exIdentical exGraph (Named T_V)) [getStringI, setI]
      = Some (Inr (Some getStringI, True))"
    and "firstUnsatisfied (requiredMethod exExported exIdentical exGraph (Named T_S)) [Func ''X'' pkgP intT]
      = Some (Inr (Some (Func ''X'' pkgP intT), False))"
    by code_simp+
  with MissingMethod_first_unsatisfied[of _ exExported exIdentical exGraph] show ?thesis by simp
qed


text \<open>
  C4, as stated, is false: it has \<^verbatim>\<open>MissingMethod\<close> return every required method that
  resolves to a pointer-receiver method without indirection, but \<^verbatim>\<open>MissingMethod\<close> returns
  the first required method that is not satisfied. \<^verbatim>\<open>Set\<close> resolves in \<^verbatim>\<open>V\<close> to a method
  with receiver \<^verbatim>\<open>*V\<close>, without indirection, yet for the interface with the methods
  \<^verbatim>\<open>Absent\<close> and \<^verbatim>\<open>Set\<close> the method returned is not \<^verbatim>\<open>Set\<close>.
\<close>

theorem pointer_receiver_first_counterexample:
  "setI \<in> set [absentI, setI] \<and>
   \<not> isInterface (Underlying exGraph (Named T_V)) \<and>
   LookupFieldOrMethod exExported exGraph (Named T_V) (funcPkg setI) (funcName setI)
     = Some (Inr (Some (FuncObj funcSet), [1], False)) \<and>
   funcTyp funcSet = Signature (Some (Var ''v'' (Pointer (Named T_V)))) [intT] [] \<and>
   MissingMethod exExported exIdentical exGraph (Named T_V) [absentI, setI] \<noteq> Some (Inr (Some setI, False))"
  by code_simp


text \<open>
  C4, amended: for every type \<open>typ\<close> whose underlying type is not an interface and every
  interface \<open>T\<close>, if a required method of \<open>T\<close> resolves by \<^verbatim>\<open>LookupFieldOrMethod\<close> to a
  function whose declared receiver is a pointer, with \<^verbatim>\<open>indirect\<close> false, and every
  required method before it in the order of \<open>T\<close> is satisfied, then \<^verbatim>\<open>MissingMethod\<close>
  returns that method with the flag false.
\<close>

theorem pointer_receiver_missing:
  assumes "T = pre @ m # post"
    and "\<forall>m' \<in> set pre. requiredMethod IsExported IsIdentical G typ0 m' = Satisfied"
    and "\<not> isInterface (Underlying G typ0)"
    and "LookupFieldOrMethod IsExported G typ0 (funcPkg m) (funcName m) = Some (Inr (Some (FuncObj f), idx, False))"
    and "funcTyp f = Signature (Some rv) ps rs"
    and "isPointer (varTyp rv)"
  shows "MissingMethod IsExported IsIdentical G typ0 T = Some (Inr (Some m, False))"
proof -
  let ?v = "requiredMethod IsExported IsIdentical G typ0"
  have "?v m = concreteVerdict IsExported IsIdentical G typ0 m"
    using assms(3) by (simp add: requiredMethod_concrete)
  also have "\<dots> = Missing" using assms(4-6) by (simp add: concreteVerdict_def)
  finally have m: "?v m = Missing" .
  have "MissingMethod IsExported IsIdentical G typ0 T = firstUnsatisfied ?v (pre @ m # post)"
    unfolding assms(1) by (rule MissingMethod_firstUnsatisfied)
  also have "\<dots> = firstUnsatisfied ?v (m # post)"
    using assms(2) by (rule firstUnsatisfied_append)
  also have "\<dots> = Some (Inr (Some m, False))" using m by (simp add: firstUnsatisfied_Cons)
  finally show ?thesis .
qed


text \<open>\<^verbatim>\<open>V\<close> has \<^verbatim>\<open>Get\<close>; its \<^verbatim>\<open>Set\<close> has the receiver \<^verbatim>\<open>*V\<close> and is reported missing.\<close>

theorem pointer_receiver_missing_witness:
  "MissingMethod exExported exIdentical exGraph (Named T_V) [getI, setI] = Some (Inr (Some setI, False))"
proof -
  have 1: "[getI, setI] = [getI] @ setI # []" by simp
  have 2: "\<forall>m' \<in> set [getI]. requiredMethod exExported exIdentical exGraph (Named T_V) m' = Satisfied"
    by code_simp
  have 3: "\<not> isInterface (Underlying exGraph (Named T_V))" by code_simp
  have 4: "LookupFieldOrMethod exExported exGraph (Named T_V) (funcPkg setI) (funcName setI)
     = Some (Inr (Some (FuncObj funcSet), [1], False))" by code_simp
  have 5: "funcTyp funcSet = Signature (Some (Var ''v'' (Pointer (Named T_V)))) [intT] []"
    by (simp add: funcSet_def)
  have 6: "isPointer (varTyp (Var ''v'' (Pointer (Named T_V)) :: tname Var))" by (simp add: isPointer_def)
  from pointer_receiver_missing[OF 1 2 3 4 5 6] show ?thesis .
qed

end
